theory Spec2Isabelle
  imports Main
begin

section \<open>Values, errors and the network\<close>

text \<open>
  The request optimizer (\<^verbatim>\<open>APIOptimizer\<close>) is modelled by explicit state passing: every
  method takes the optimizer's state and returns it updated. What the program reads from
  outside is a parameter: the readings of \<^verbatim>\<open>Date.now()\<close>, the results of \<^verbatim>\<open>fetch\<close>, the
  platform's URL parser and the random id of a queued request. The synchronous part of
  one call reads one time. An awaited send runs to its end before another task touches
  the state; interleavings of several sends in flight are not modelled.
\<close>

text \<open>
  A response payload is whatever \<^verbatim>\<open>response.json()\<close> parses (the source types it
  \<^verbatim>\<open>any\<close>). Numbers are kept integral here; a fractional number is truthy like every
  other non-zero one. \<open>JNull\<close> is also the \<^verbatim>\<open>null\<close> that \<^verbatim>\<open>getFromCache\<close> returns on a
  miss.
\<close>

datatype json =
    JNull
  | JBool bool
  | JNum int
  | JStr string
  | JArr "json list"
  | JObj "(string \<times> json) list"

text \<open>JavaScript truthiness, as \<^verbatim>\<open>if (cached)\<close> and \<^verbatim>\<open>!!x\<close> read a value.\<close>

fun truthy :: "json \<Rightarrow> bool" where
  "truthy JNull = False"
| "truthy (JBool b) = b"
| "truthy (JNum n) = (n \<noteq> 0)"
| "truthy (JStr s) = (s \<noteq> [])"
| "truthy (JArr xs) = True"
| "truthy (JObj kvs) = True"

text \<open>
  Everything the send loop catches is an \<^verbatim>\<open>Error\<close> object (the rejection of
  \<^verbatim>\<open>fetch\<close> or of \<^verbatim>\<open>json()\<close>, or the error made from a non-2xx status), so
  \<^verbatim>\<open>error instanceof Error\<close> holds for each of them.
\<close>

datatype js_error = JsError (err_name: string) (err_message: string)

text \<open>
  One call of \<^verbatim>\<open>fetch\<close>: it rejects, or it resolves to a response with a status, a
  status text and a body that parses or not.
\<close>

datatype fetch_result =
    FetchThrows js_error
  | Response nat string "js_error + json"

text \<open>
  The network is an oracle: for the k-th attempt of a send, the result of its
  \<^verbatim>\<open>fetch\<close> and the value of \<^verbatim>\<open>Date.now()\<close> once that attempt has settled.
\<close>

type_synonym network = "nat \<Rightarrow> fetch_result \<times> int"

text \<open>\<^verbatim>\<open>new URL(url).hostname\<close> is the platform's: \<open>None\<close> where the constructor throws.\<close>

type_synonym url_parser = "string \<Rightarrow> string option"

subsection \<open>Numbers and object literals\<close>

text \<open>
  A number of the program that can fail to be one: \<^verbatim>\<open>now + undefined\<close> is \<open>NaN\<close>, and
  so, for the comparisons made with it, is the sum of a timestamp and a value that is a
  function or an object. Every comparison with \<open>NaN\<close> is false.
\<close>

datatype js_num = Num int | NaN

text \<open>\<^verbatim>\<open>a >= x\<close>\<close>

definition ge_num :: "int \<Rightarrow> js_num \<Rightarrow> bool" where
  "ge_num a x = (case x of Num b \<Rightarrow> a \<ge> b | NaN \<Rightarrow> False)"

text \<open>\<^verbatim>\<open>now > timestamp + ttl\<close>\<close>

definition past_ttl :: "int \<Rightarrow> int \<Rightarrow> js_num \<Rightarrow> bool" where
  "past_ttl now stamp t = (case t of Num n \<Rightarrow> now > stamp + n | NaN \<Rightarrow> False)"

text \<open>
  The configuration tables are object literals read by a computed name,
  \<^verbatim>\<open>table[domain]\<close>. Such a read finds the table's own entry, or else, for the names
  below, what every object inherits from \<^verbatim>\<open>Object.prototype\<close>: a function (for
  \<^verbatim>\<open>__proto__\<close> the prototype object), which is truthy and has no property
  \<^verbatim>\<open>requests\<close> or \<^verbatim>\<open>window\<close>. For every other name the read gives \<^verbatim>\<open>undefined\<close>.
\<close>

definition object_prototype_names :: "string list" where
  "object_prototype_names =
     [''constructor'', ''__defineGetter__'', ''__defineSetter__'', ''hasOwnProperty'',
      ''__lookupGetter__'', ''__lookupSetter__'', ''isPrototypeOf'', ''propertyIsEnumerable'',
      ''toString'', ''valueOf'', ''__proto__'', ''toLocaleString'']"

datatype 'a property = Own 'a | Inherited | Undefined

definition lookup_property :: "(string \<rightharpoonup> 'a) \<Rightarrow> string \<Rightarrow> 'a property" where
  "lookup_property table key =
     (case table key of
        Some v \<Rightarrow> Own v
      | None \<Rightarrow> if key \<in> set object_prototype_names then Inherited else Undefined)"

subsection \<open>Strings\<close>

definition digit_char :: "nat \<Rightarrow> char" where
  "digit_char d = (''0123456789'' ! (d mod 10))"

fun string_of_nat :: "nat \<Rightarrow> string" where
  "string_of_nat n =
     (if n < 10 then [digit_char n] else string_of_nat (n div 10) @ [digit_char (n mod 10)])"

fun starts_with :: "string \<Rightarrow> string \<Rightarrow> bool" where
  "starts_with cs [] = True"
| "starts_with [] (p # ps) = False"
| "starts_with (c # cs) (p # ps) = (c = p \<and> starts_with cs ps)"

text \<open>\<^verbatim>\<open>s.includes(sub)\<close>\<close>

fun str_includes :: "string \<Rightarrow> string \<Rightarrow> bool" where
  "str_includes [] sub = (sub = [])"
| "str_includes (c # cs) sub = (starts_with (c # cs) sub \<or> str_includes cs sub)"

section \<open>The data model\<close>

datatype http_method = GET | POST | PUT | DELETE

datatype priority_tag = High | Medium | Low

text \<open>An optional field of the source is an \<open>option\<close>: \<open>None\<close> is \<^verbatim>\<open>undefined\<close>.\<close>

record RequestConfig =
  url :: string
  meth :: "http_method option"
  headers :: "(string \<times> string) list option"
  body :: "json option"
  timeout :: "int option"
  retries :: "int option"
  cacheKey :: "string option"
  priority :: "priority_tag option"
  skipCache :: "bool option"

record RequestResult =
  success :: bool
  result_data :: "json option"
  result_error :: "string option"
  duration :: int
  fromCache :: "bool option"

record CacheEntry =
  data :: json
  timestamp :: int
  ttl :: js_num

record RateLimiter =
  count :: nat
  resetTime :: js_num

record CircuitBreaker =
  failures :: nat
  lastFailure :: int
  isOpen :: bool

text \<open>
  The \<^verbatim>\<open>resolve\<close> and \<^verbatim>\<open>reject\<close> closures of a queued request stand for its caller;
  here the caller is known by the request's id, and the drain reports what it settled.
\<close>

record QueuedRequest =
  req_id :: string
  config :: RequestConfig
  priority_index :: nat
  queued_at :: int

text \<open>
  The cache is a JavaScript \<^verbatim>\<open>Map\<close> whose size is read, so it is kept as an association
  list in insertion order; the limiter and breaker maps are only looked up and updated.
  The last component is not a field of the class: it holds the timers that
  \<^verbatim>\<open>processQueue\<close> has set with \<^verbatim>\<open>setTimeout\<close> to call itself again and that have
  not run yet, each by the time it is due.
\<close>

record APIOptimizer =
  requestCache :: "(string \<times> CacheEntry) list"
  rateLimiter :: "string \<rightharpoonup> RateLimiter"
  circuitBreaker :: "string \<rightharpoonup> CircuitBreaker"
  requestQueue :: "QueuedRequest list"
  isProcessingQueue :: bool
  drainTimers :: "int list"

definition new_optimizer :: APIOptimizer where
  "new_optimizer =
     \<lparr>requestCache = [], rateLimiter = Map.empty, circuitBreaker = Map.empty,
      requestQueue = [], isProcessingQueue = False, drainTimers = []\<rparr>"

subsection \<open>Configuration tables\<close>

record RateLimit =
  requests :: nat
  window :: int

text \<open>The own entries of \<^verbatim>\<open>RATE_LIMITS\<close>.\<close>

definition RATE_LIMITS :: "string \<rightharpoonup> RateLimit" where
  "RATE_LIMITS domain =
     (if domain = ''nominatim.openstreetmap.org'' then Some \<lparr>requests = 1, window = 1000\<rparr>
      else if domain = ''ipapi.co'' then Some \<lparr>requests = 1000, window = 60000\<rparr>
      else if domain = ''ip-api.com'' then Some \<lparr>requests = 45, window = 60000\<rparr>
      else if domain = ''timeapi.io'' then Some \<lparr>requests = 100, window = 60000\<rparr>
      else if domain = ''api.geonames.org'' then Some \<lparr>requests = 1000, window = 3600000\<rparr>
      else None)"

definition failureThreshold :: nat where
  "failureThreshold = 5"

definition resetTimeout :: int where
  "resetTimeout = 60000"

text \<open>\<^verbatim>\<open>a || b\<close> on numbers: zero is falsy.\<close>

definition num_or :: "nat \<Rightarrow> nat \<Rightarrow> nat" where
  "num_or a b = (if a = 0 then b else a)"

text \<open>The own entries of \<^verbatim>\<open>ttlMap\<close>.\<close>

definition ttlMap :: "string \<rightharpoonup> nat" where
  "ttlMap domain =
     (if domain = ''nominatim.openstreetmap.org'' then Some (60 * 60 * 1000)
      else if domain = ''ipapi.co'' then Some (30 * 60 * 1000)
      else if domain = ''ip-api.com'' then Some (30 * 60 * 1000)
      else if domain = ''timeapi.io'' then Some (60 * 60 * 1000)
      else if domain = ''api.geonames.org'' then Some (60 * 60 * 1000)
      else None)"

text \<open>
  \<^verbatim>\<open>ttlMap[domain] || 15 * 60 * 1000\<close>. An inherited function or object is truthy and
  becomes the time-to-live as it is: \<open>NaN\<close> here, since its sum with a timestamp is no
  number.
\<close>

definition getCacheTTL :: "string \<Rightarrow> js_num" where
  "getCacheTTL domain =
     (case lookup_property ttlMap domain of
        Own t \<Rightarrow> Num (int (num_or t (15 * 60 * 1000)))
      | Inherited \<Rightarrow> NaN
      | Undefined \<Rightarrow> Num (15 * 60 * 1000))"

definition priorities :: "priority_tag \<Rightarrow> nat" where
  "priorities p = (case p of High \<Rightarrow> 0 | Medium \<Rightarrow> 1 | Low \<Rightarrow> 2)"

definition getPriorityIndex :: "priority_tag \<Rightarrow> nat" where
  "getPriorityIndex p = num_or (priorities p) 1"

section \<open>Domains, rate limiting and the circuit breaker\<close>

definition extractDomain :: "url_parser \<Rightarrow> string \<Rightarrow> string" where
  "extractDomain hostname u = (case hostname u of Some h \<Rightarrow> h | None \<Rightarrow> ''unknown'')"

text \<open>\<^verbatim>\<open>now + rateLimit.window\<close> and \<^verbatim>\<open>limiter.count < rateLimit.requests\<close>.\<close>

definition plus_window :: "int \<Rightarrow> RateLimit property \<Rightarrow> js_num" where
  "plus_window now rateLimit =
     (case rateLimit of Own rl \<Rightarrow> Num (now + window rl) | Inherited \<Rightarrow> NaN | Undefined \<Rightarrow> NaN)"

definition below_quota :: "nat \<Rightarrow> RateLimit property \<Rightarrow> bool" where
  "below_quota c rateLimit =
     (case rateLimit of Own rl \<Rightarrow> c < requests rl | Inherited \<Rightarrow> False | Undefined \<Rightarrow> False)"

definition checkRateLimit :: "string \<Rightarrow> int \<Rightarrow> APIOptimizer \<Rightarrow> bool \<times> APIOptimizer" where
  "checkRateLimit domain now s =
     (let rateLimit = lookup_property RATE_LIMITS domain
      in if rateLimit = Undefined then (True, s)
         else
           (case rateLimiter s domain of
              None \<Rightarrow>
                (True, s\<lparr>rateLimiter := (rateLimiter s)
                           (domain \<mapsto> \<lparr>count = 1, resetTime = plus_window now rateLimit\<rparr>)\<rparr>)
            | Some limiter \<Rightarrow>
                if ge_num now (resetTime limiter) then
                  (True, s\<lparr>rateLimiter := (rateLimiter s)
                             (domain \<mapsto> \<lparr>count = 1, resetTime = plus_window now rateLimit\<rparr>)\<rparr>)
                else if below_quota (count limiter) rateLimit then
                  (True, s\<lparr>rateLimiter := (rateLimiter s)
                             (domain \<mapsto> limiter\<lparr>count := count limiter + 1\<rparr>)\<rparr>)
                else (False, s)))"

definition isCircuitOpen :: "string \<Rightarrow> int \<Rightarrow> APIOptimizer \<Rightarrow> bool \<times> APIOptimizer" where
  "isCircuitOpen domain now s =
     (case circuitBreaker s domain of
        None \<Rightarrow> (False, s)
      | Some breaker \<Rightarrow>
          if isOpen breaker then
            if now - lastFailure breaker > resetTimeout then
              (False, s\<lparr>circuitBreaker := (circuitBreaker s)
                           (domain \<mapsto> breaker\<lparr>isOpen := False, failures := 0\<rparr>)\<rparr>)
            else (True, s)
          else (False, s))"

definition recordFailure :: "string \<Rightarrow> int \<Rightarrow> APIOptimizer \<Rightarrow> APIOptimizer" where
  "recordFailure domain now s =
     (let breaker = (case circuitBreaker s domain of
                       Some b \<Rightarrow> b
                     | None \<Rightarrow> \<lparr>failures = 0, lastFailure = 0, isOpen = False\<rparr>);
          breaker1 = breaker\<lparr>failures := failures breaker + 1, lastFailure := now\<rparr>;
          breaker2 = (if failures breaker1 \<ge> failureThreshold
                      then breaker1\<lparr>isOpen := True\<rparr> else breaker1)
      in s\<lparr>circuitBreaker := (circuitBreaker s)(domain \<mapsto> breaker2)\<rparr>)"

definition resetCircuitBreaker :: "string \<Rightarrow> APIOptimizer \<Rightarrow> APIOptimizer" where
  "resetCircuitBreaker domain s = s\<lparr>circuitBreaker := (circuitBreaker s)(domain := None)\<rparr>"

section \<open>The cache\<close>

fun map_get :: "(string \<times> 'v) list \<Rightarrow> string \<Rightarrow> 'v option" where
  "map_get [] k = None"
| "map_get ((k', v) # kvs) k = (if k' = k then Some v else map_get kvs k)"

text \<open>\<^verbatim>\<open>Map.set\<close>: an existing key keeps its place, a new one goes last.\<close>

fun map_set :: "(string \<times> 'v) list \<Rightarrow> string \<Rightarrow> 'v \<Rightarrow> (string \<times> 'v) list" where
  "map_set [] k v = [(k, v)]"
| "map_set ((k', v') # kvs) k v = (if k' = k then (k, v) # kvs else (k', v') # map_set kvs k v)"

fun map_delete :: "(string \<times> 'v) list \<Rightarrow> string \<Rightarrow> (string \<times> 'v) list" where
  "map_delete [] k = []"
| "map_delete ((k', v) # kvs) k = (if k' = k then map_delete kvs k else (k', v) # map_delete kvs k)"

definition getFromCache :: "string \<Rightarrow> int \<Rightarrow> APIOptimizer \<Rightarrow> json \<times> APIOptimizer" where
  "getFromCache key now s =
     (case map_get (requestCache s) key of
        None \<Rightarrow> (JNull, s)
      | Some cached \<Rightarrow>
          if past_ttl now (timestamp cached) (ttl cached)
          then (JNull, s\<lparr>requestCache := map_delete (requestCache s) key\<rparr>)
          else (data cached, s))"

fun cleanup_entries :: "int \<Rightarrow> (string \<times> CacheEntry) list \<Rightarrow> (string \<times> CacheEntry) list" where
  "cleanup_entries now [] = []"
| "cleanup_entries now ((k, cached) # kvs) =
     (if past_ttl now (timestamp cached) (ttl cached) then cleanup_entries now kvs
      else (k, cached) # cleanup_entries now kvs)"

definition cleanupCache :: "int \<Rightarrow> APIOptimizer \<Rightarrow> APIOptimizer" where
  "cleanupCache now s = s\<lparr>requestCache := cleanup_entries now (requestCache s)\<rparr>"

definition setCache :: "string \<Rightarrow> json \<Rightarrow> js_num \<Rightarrow> int \<Rightarrow> APIOptimizer \<Rightarrow> APIOptimizer" where
  "setCache key d t now s =
     (let s1 = s\<lparr>requestCache :=
                  map_set (requestCache s) key \<lparr>data = d, timestamp = now, ttl = t\<rparr>\<rparr>
      in if length (requestCache s1) > 1000 then cleanupCache now s1 else s1)"

section \<open>Direct send with retry\<close>

text \<open>
  What one attempt of the loop body yields: the parsed payload, or the error that lands
  in the \<^verbatim>\<open>catch\<close> block (from \<^verbatim>\<open>fetch\<close>, from the \<^verbatim>\<open>response.ok\<close> check or from
  \<^verbatim>\<open>json()\<close>).
\<close>

definition attempt_outcome :: "fetch_result \<Rightarrow> js_error + json" where
  "attempt_outcome r =
     (case r of
        FetchThrows e \<Rightarrow> Inl e
      | Response status statusText parsed \<Rightarrow>
          if \<not> (200 \<le> status \<and> status \<le> 299)
          then Inl (JsError ''Error'' (''HTTP '' @ string_of_nat status @ '': '' @ statusText))
          else parsed)"

text \<open>The errors after which the loop breaks instead of retrying.\<close>

definition no_retry :: "js_error \<Rightarrow> bool" where
  "no_retry e = (err_name e = ''AbortError'' \<or> str_includes (err_message e) ''404'')"

text \<open>
  The \<^verbatim>\<open>for\<close> loop of \<^verbatim>\<open>executeRequest\<close>, from attempt number \<open>attempt\<close> on. It returns
  what the send resolves or rejects with, the number of \<^verbatim>\<open>fetch\<close> calls made so far,
  and the state.
\<close>

function send_loop ::
  "RequestConfig \<Rightarrow> string \<Rightarrow> network \<Rightarrow> int \<Rightarrow> nat \<Rightarrow> js_error option \<Rightarrow> APIOptimizer
     \<Rightarrow> (js_error + json) \<times> nat \<times> APIOptimizer" where
  "send_loop cfg domain net n_retries attempt lastError s =
     (if int attempt \<le> n_retries then
        (case net attempt of (r, now) \<Rightarrow>
           (case attempt_outcome r of
              Inr d \<Rightarrow>
                (Inr d, Suc attempt,
                 resetCircuitBreaker domain
                   (case cacheKey cfg of
                      None \<Rightarrow> s
                    | Some key \<Rightarrow>
                        if key \<noteq> [] then setCache key d (getCacheTTL domain) now s else s))
            | Inl e \<Rightarrow>
                (let s1 = recordFailure domain now s
                 in if no_retry e then (Inl e, Suc attempt, s1)
                    else send_loop cfg domain net n_retries (Suc attempt) (Some e) s1)))
      else
        (Inl (case lastError of
                Some e \<Rightarrow> e
              | None \<Rightarrow> JsError ''Error'' ''Request failed after all retries''),
         attempt, s))"
  by pat_completeness auto
termination
  by (relation "measure (\<lambda>(cfg, domain, net, n_retries, attempt, lastError, s).
        nat (n_retries + 1 - int attempt))") auto

definition executeRequest ::
  "url_parser \<Rightarrow> RequestConfig \<Rightarrow> network \<Rightarrow> APIOptimizer
     \<Rightarrow> (js_error + json) \<times> nat \<times> APIOptimizer" where
  "executeRequest hostname cfg net s =
     send_loop cfg (extractDomain hostname (url cfg)) net
       (case retries cfg of None \<Rightarrow> 3 | Some r \<Rightarrow> r) 0 None s"

section \<open>The queue\<close>

text \<open>\<^verbatim>\<open>Array.findIndex\<close>: \<open>None\<close> is the source's \<open>-1\<close>.\<close>

fun find_index :: "('a \<Rightarrow> bool) \<Rightarrow> 'a list \<Rightarrow> nat option" where
  "find_index P [] = None"
| "find_index P (x # xs) =
     (if P x then Some 0 else (case find_index P xs of None \<Rightarrow> None | Some i \<Rightarrow> Some (Suc i)))"

text \<open>The insertion of \<^verbatim>\<open>queueRequest\<close>: \<^verbatim>\<open>push\<close>, or \<^verbatim>\<open>splice(insertIndex, 0, q)\<close>.\<close>

definition queue_insert :: "QueuedRequest \<Rightarrow> QueuedRequest list \<Rightarrow> QueuedRequest list" where
  "queue_insert q qs =
     (case find_index (\<lambda>req. priority_index req > priority_index q) qs of
        None \<Rightarrow> qs @ [q]
      | Some insertIndex \<Rightarrow> take insertIndex qs @ [q] @ drop insertIndex qs)"

text \<open>A queued request the drain has settled: its id, its result, its \<^verbatim>\<open>fetch\<close> calls.\<close>

type_synonym settlement = "string \<times> (js_error + json) \<times> nat"

text \<open>
  The \<^verbatim>\<open>while\<close> loop of \<^verbatim>\<open>processQueue\<close> over the queue \<open>r # rest\<close>; an awaited send
  runs to its end before anything else touches the state. \<open>clock i\<close> is
  \<^verbatim>\<open>Date.now()\<close> in the i-th round, \<open>nets i\<close> the network that round's send meets.
\<close>

fun drain ::
  "url_parser \<Rightarrow> (nat \<Rightarrow> int) \<Rightarrow> (nat \<Rightarrow> network) \<Rightarrow> nat \<Rightarrow> QueuedRequest list \<Rightarrow> APIOptimizer
     \<Rightarrow> settlement list \<times> APIOptimizer" where
  "drain hostname clock nets i [] s = ([], s\<lparr>requestQueue := []\<rparr>)"
| "drain hostname clock nets i (r # rest) s =
     (let s0 = s\<lparr>requestQueue := rest\<rparr>;
          domain = extractDomain hostname (url (config r))
      in case checkRateLimit domain (clock i) s0 of (ok, s1) \<Rightarrow>
           (case (if ok then isCircuitOpen domain (clock i) s1 else (False, s1)) of (opn, s2) \<Rightarrow>
              if ok \<and> \<not> opn then
                (case executeRequest hostname (config r) (nets i) s2 of (res, n, s3) \<Rightarrow>
                   (case drain hostname clock nets (Suc i) rest s3 of (outs, s4) \<Rightarrow>
                      ((req_id r, res, n) # outs, s4)))
              else ([], s2\<lparr>requestQueue := r # rest\<rparr>)))"

text \<open>
  \<^verbatim>\<open>processQueue\<close>. When the loop is left with requests still queued, a timer is set to
  call \<^verbatim>\<open>processQueue\<close> again 1000 ms later; the loop stopped in the round after its
  last send, at the time that round read.
\<close>

definition processQueue ::
  "url_parser \<Rightarrow> (nat \<Rightarrow> int) \<Rightarrow> (nat \<Rightarrow> network) \<Rightarrow> APIOptimizer
     \<Rightarrow> settlement list \<times> APIOptimizer" where
  "processQueue hostname clock nets s =
     (if isProcessingQueue s \<or> requestQueue s = [] then ([], s)
      else (case drain hostname clock nets 0 (requestQueue s) (s\<lparr>isProcessingQueue := True\<rparr>) of
              (outs, s1) \<Rightarrow>
                (let s2 = s1\<lparr>isProcessingQueue := False\<rparr>
                 in (outs,
                     if requestQueue s2 \<noteq> []
                     then s2\<lparr>drainTimers := drainTimers s2 @ [clock (length outs) + 1000]\<rparr>
                     else s2))))"


definition queueRequest ::
  "url_parser \<Rightarrow> RequestConfig \<Rightarrow> string \<Rightarrow> int \<Rightarrow> (nat \<Rightarrow> int) \<Rightarrow> (nat \<Rightarrow> network) \<Rightarrow> APIOptimizer
     \<Rightarrow> settlement list \<times> APIOptimizer" where
  "queueRequest hostname cfg new_id now clock nets s =
     (let queuedRequest =
            \<lparr>req_id = new_id, config = cfg,
             priority_index =
               getPriorityIndex (case priority cfg of None \<Rightarrow> Medium | Some p \<Rightarrow> p),
             queued_at = now\<rparr>
      in processQueue hostname clock nets
           (s\<lparr>requestQueue := queue_insert queuedRequest (requestQueue s)\<rparr>))"

section \<open>Request admission\<close>

datatype outcome = Fulfilled json | Rejected js_error | Pending

definition settle :: "js_error + json \<Rightarrow> outcome" where
  "settle r = (case r of Inl e \<Rightarrow> Rejected e | Inr d \<Rightarrow> Fulfilled d)"

text \<open>\<^verbatim>\<open>config.cacheKey && !config.skipCache\<close>: the key, when the cache may be read.\<close>

definition cache_read_key :: "RequestConfig \<Rightarrow> string option" where
  "cache_read_key cfg =
     (case cacheKey cfg of
        None \<Rightarrow> None
      | Some key \<Rightarrow> if key \<noteq> [] \<and> skipCache cfg \<noteq> Some True then Some key else None)"

text \<open>
  The cache check that opens \<^verbatim>\<open>request\<close>: the cached value, or \<^verbatim>\<open>null\<close> when the
  cache is not read or holds nothing valid.
\<close>

definition cache_lookup :: "RequestConfig \<Rightarrow> int \<Rightarrow> APIOptimizer \<Rightarrow> json \<times> APIOptimizer" where
  "cache_lookup cfg now s =
     (case cache_read_key cfg of
        None \<Rightarrow> (JNull, s)
      | Some key \<Rightarrow> getFromCache key now s)"

text \<open>
  \<^verbatim>\<open>request\<close> at time \<open>now\<close>. The result is how the caller's promise stands when the call
  and what it started have run (\<open>Pending\<close>: waiting in the queue), the number of
  \<^verbatim>\<open>fetch\<close> calls of its own direct send, the queued requests settled by the drain that
  \<^verbatim>\<open>queueRequest\<close> started, and the state.
\<close>

definition request ::
  "url_parser \<Rightarrow> RequestConfig \<Rightarrow> int \<Rightarrow> string \<Rightarrow> (nat \<Rightarrow> int) \<Rightarrow> (nat \<Rightarrow> network) \<Rightarrow> network
     \<Rightarrow> APIOptimizer \<Rightarrow> outcome \<times> nat \<times> settlement list \<times> APIOptimizer" where
  "request hostname cfg now new_id clock nets net s =
     (let domain = extractDomain hostname (url cfg)
      in case cache_lookup cfg now s of (cached, s1) \<Rightarrow>
           if truthy cached then (Fulfilled cached, 0, [], s1)
           else (case isCircuitOpen domain now s1 of (opn, s2) \<Rightarrow>
                   if opn then
                     (Rejected (JsError ''Error'' (''Circuit breaker is open for '' @ domain)),
                      0, [], s2)
                   else (case checkRateLimit domain now s2 of (ok, s3) \<Rightarrow>
                           if \<not> ok then
                             (case queueRequest hostname cfg new_id now clock nets s3 of
                                (outs, s4) \<Rightarrow> (Pending, 0, outs, s4))
                           else (case executeRequest hostname cfg net s3 of
                                   (res, n, s4) \<Rightarrow> (settle res, n, [], s4)))))"

section \<open>Batches\<close>

text \<open>
  One element of \<^verbatim>\<open>requests.map(async ...)\<close>, from the moment \<^verbatim>\<open>this.request(config)\<close>
  has settled with \<open>res\<close>: \<open>startTime\<close> and \<open>endTime\<close> are the two readings of
  \<^verbatim>\<open>Date.now()\<close>; the cache is read again for the \<^verbatim>\<open>fromCache\<close> flag.
\<close>

definition batch_item ::
  "RequestConfig \<Rightarrow> int \<Rightarrow> js_error + json \<Rightarrow> int \<Rightarrow> APIOptimizer
     \<Rightarrow> RequestResult \<times> APIOptimizer" where
  "batch_item cfg startTime res endTime s =
     (case res of
        Inr d \<Rightarrow>
          (case (case cacheKey cfg of
                   None \<Rightarrow> (False, s)
                 | Some key \<Rightarrow>
                     if key \<noteq> [] then
                       (case getFromCache key endTime s of (c, s1) \<Rightarrow> (truthy c, s1))
                     else (False, s)) of (fc, s1) \<Rightarrow>
             (\<lparr>success = True, result_data = Some d, result_error = None,
               duration = endTime - startTime, fromCache = Some fc\<rparr>, s1))
      | Inl e \<Rightarrow>
          (\<lparr>success = False, result_data = None, result_error = Some (err_message e),
            duration = endTime - startTime, fromCache = None\<rparr>, s))"





section \<open>Observations and concrete inputs\<close>

text \<open>The failures a domain's breaker holds; a domain without a breaker holds none.\<close>

definition failures_of :: "APIOptimizer \<Rightarrow> string \<Rightarrow> nat" where
  "failures_of s domain = (case circuitBreaker s domain of None \<Rightarrow> 0 | Some b \<Rightarrow> failures b)"

text \<open>
  The concrete runs below need a URL parser, requests and networks. \<open>test_hostname\<close> is
  the platform's parser on the URLs the runs use; every other string, such as
  \<^verbatim>\<open>not a url\<close>, makes \<^verbatim>\<open>new URL\<close> throw.
\<close>

definition test_hostname :: url_parser where
  "test_hostname u =
     (if u = ''https://example.com/data'' then Some ''example.com''
      else if u = ''https://ip-api.com/json'' then Some ''ip-api.com''
      else if u = ''https://nominatim.openstreetmap.org/reverse''
        then Some ''nominatim.openstreetmap.org''
      else None)"

text \<open>A request that sets nothing but its URL.\<close>

definition plain_request :: "string \<Rightarrow> RequestConfig" where
  "plain_request u =
     \<lparr>url = u, meth = None, headers = None, body = None, timeout = None, retries = None,
      cacheKey = None, priority = None, skipCache = None\<rparr>"

text \<open>An endpoint that answers every attempt with HTTP 500; attempt k settles at 1000 + k.\<close>

definition always_500 :: network where
  "always_500 k = (Response 500 ''Internal Server Error'' (Inr JNull), 1000 + int k)"

text \<open>An endpoint that answers every attempt with 200 and the payload \<open>d\<close>, settled at \<open>t\<close>.\<close>

definition answers :: "json \<Rightarrow> int \<Rightarrow> network" where
  "answers d t k = (Response 200 ''OK'' (Inr d), t)"

definition keyed_request :: "string \<Rightarrow> string \<Rightarrow> RequestConfig" where
  "keyed_request u key = (plain_request u)\<lparr>cacheKey := Some key\<rparr>"

definition skipping_request :: "string \<Rightarrow> string \<Rightarrow> RequestConfig" where
  "skipping_request u key = (keyed_request u key)\<lparr>skipCache := Some True\<rparr>"

text \<open>A drain whose every round reads the same time, and whose sends all meet HTTP 500.\<close>

definition frozen_clock :: "int \<Rightarrow> nat \<Rightarrow> int" where
  "frozen_clock t i = t"

definition idle_nets :: "nat \<Rightarrow> network" where
  "idle_nets i = always_500"

text \<open>
  The state after one request with cache key \<^verbatim>\<open>k\<close> whose endpoint answered with the
  JSON value \<^verbatim>\<open>null\<close> at time 10.
\<close>

definition after_null_payload :: APIOptimizer where
  "after_null_payload =
     snd (snd (snd (request test_hostname (keyed_request ''https://example.com/data'' ''k'')
        0 ''a'' (frozen_clock 0) idle_nets (answers JNull 10) new_optimizer)))"

text \<open>
  The state after a request with cache key \<^verbatim>\<open>k\<close> was answered 7 at time 10, and the
  state after a request with the same key and the skip-cache flag set was then answered
  8 at time 60.
\<close>

definition after_payload_7 :: APIOptimizer where
  "after_payload_7 =
     snd (snd (snd (request test_hostname (keyed_request ''https://example.com/data'' ''k'')
        0 ''a'' (frozen_clock 0) idle_nets (answers (JNum 7) 10) new_optimizer)))"

definition after_skipping_8 :: APIOptimizer where
  "after_skipping_8 =
     snd (snd (snd (request test_hostname (skipping_request ''https://example.com/data'' ''k'')
        50 ''b'' (frozen_clock 50) idle_nets (answers (JNum 8) 60) after_payload_7)))"

text \<open>Requests that set a priority, and a drain whose rounds are a second apart.\<close>

definition prioritised :: "string \<Rightarrow> priority_tag \<Rightarrow> RequestConfig" where
  "prioritised u p = (plain_request u)\<lparr>priority := Some p\<rparr>"

definition stepping_clock :: "nat \<Rightarrow> int" where
  "stepping_clock i = 1000 * (int i + 1)"

definition numbered_nets :: "nat \<Rightarrow> network" where
  "numbered_nets i = answers (JNum (int i)) (1000 * (int i + 1) + 50)"

text \<open>
  One request to the reverse-geocoding service at time 0 uses up its quota of one
  request per second; a medium-priority and then a high-priority request to it at times
  1 and 2 are rate-limited and queued.
\<close>

definition nominatim_used :: APIOptimizer where
  "nominatim_used =
     snd (snd (snd (request test_hostname
        (plain_request ''https://nominatim.openstreetmap.org/reverse'') 0 ''first''
        (frozen_clock 0) idle_nets (answers (JNum 7) 10) new_optimizer)))"

definition medium_then_high :: APIOptimizer where
  "medium_then_high =
     snd (snd (snd (request test_hostname
        (prioritised ''https://nominatim.openstreetmap.org/reverse'' High) 2 ''h''
        (frozen_clock 2) idle_nets always_500
        (snd (snd (snd (request test_hostname
           (prioritised ''https://nominatim.openstreetmap.org/reverse'' Medium) 1 ''m''
           (frozen_clock 1) idle_nets always_500 nominatim_used)))))))"

text \<open>
  Two requests with a malformed URL, at times 0 and 10, each with the default three
  retries and each attempt failing as \<^verbatim>\<open>fetch\<close> does on such a URL.
\<close>

definition refusing :: network where
  "refusing k = (FetchThrows (JsError ''TypeError'' ''Failed to parse URL''), 5 + int k)"

definition after_two_malformed :: APIOptimizer where
  "after_two_malformed =
     snd (snd (snd (request test_hostname (plain_request ''not a url'') 10 ''b''
        (frozen_clock 10) idle_nets refusing
        (snd (snd (snd (request test_hostname (plain_request ''not a url'') 0 ''a''
           (frozen_clock 0) idle_nets refusing new_optimizer)))))))"

text \<open>Whether a domain's breaker is flagged open; a domain without a breaker is not.\<close>

definition is_open :: "APIOptimizer \<Rightarrow> string \<Rightarrow> bool" where
  "is_open s domain = (case circuitBreaker s domain of None \<Rightarrow> False | Some b \<Rightarrow> isOpen b)"

text \<open>
  An endpoint that answers HTTP 500 from time \<open>t\<close> on. Two requests with the default
  three retries against it, at times 0 and 2000, trip the breaker of their domain: it
  holds eight failures, the last at time 2003. Then, after the cooldown, a trial request
  at time 70000 fails in all its four attempts.
\<close>

definition failing_at :: "int \<Rightarrow> network" where
  "failing_at t k = (Response 500 ''Internal Server Error'' (Inr JNull), t + int k)"

definition four_failures :: APIOptimizer where
  "four_failures =
     snd (snd (snd (request test_hostname (plain_request ''https://example.com/data'') 0 ''a''
        (frozen_clock 0) idle_nets (failing_at 0) new_optimizer)))"

definition tripped :: APIOptimizer where
  "tripped =
     snd (snd (snd (request test_hostname (plain_request ''https://example.com/data'') 2000 ''b''
        (frozen_clock 2000) idle_nets (failing_at 2000) four_failures)))"

definition after_failed_trial :: APIOptimizer where
  "after_failed_trial =
     snd (snd (snd (request test_hostname (plain_request ''https://example.com/data'') 70000
        ''t1'' (frozen_clock 70000) idle_nets (failing_at 70000) tripped)))"

text \<open>
  An endpoint whose first answer, at time \<open>t\<close>, is HTTP 500 and whose later answers
  are 200 with the payload 1. After the four failures, a request against it at time 2000
  brings the count to five in its first attempt and resolves in its second.
\<close>

definition failing_once :: "int \<Rightarrow> network" where
  "failing_once t k =
     (if k = 0 then (Response 500 ''Internal Server Error'' (Inr JNull), t)
      else (Response 200 ''OK'' (Inr (JNum 1)), t + int k))"

definition tripped_then_resolved :: APIOptimizer where
  "tripped_then_resolved =
     snd (snd (snd (request test_hostname (plain_request ''https://example.com/data'') 2000 ''b''
        (frozen_clock 2000) idle_nets (failing_once 2000) four_failures)))"


text \<open>
  A low-priority, a high-priority and a medium-priority request to the reverse-geocoding
  service, queued in this order at times 1, 2 and 3 while its quota is used up.
\<close>

definition low_high_medium :: APIOptimizer where
  "low_high_medium =
     snd (snd (snd (request test_hostname
        (prioritised ''https://nominatim.openstreetmap.org/reverse'' Medium) 3 ''m''
        (frozen_clock 3) idle_nets always_500
        (snd (snd (snd (request test_hostname
           (prioritised ''https://nominatim.openstreetmap.org/reverse'' High) 2 ''h''
           (frozen_clock 2) idle_nets always_500
           (snd (snd (snd (request test_hostname
              (prioritised ''https://nominatim.openstreetmap.org/reverse'' Low) 1 ''l''
              (frozen_clock 1) idle_nets always_500 nominatim_used)))))))))))"

text \<open>
  Calls of \<^verbatim>\<open>request\<close> one after the other, each with its time, its id and the
  network it meets: what each call yields, and the state after the last.
\<close>

fun request_all ::
  "url_parser
     \<Rightarrow> (RequestConfig \<times> int \<times> string \<times> (nat \<Rightarrow> int) \<times> (nat \<Rightarrow> network) \<times> network) list
     \<Rightarrow> APIOptimizer \<Rightarrow> (outcome \<times> nat \<times> settlement list) list \<times> APIOptimizer" where
  "request_all hostname [] s = ([], s)"
| "request_all hostname ((cfg, now, new_id, clock, nets, net) # calls) s =
     (case request hostname cfg now new_id clock nets net s of (out, n, outs, s1) \<Rightarrow>
        (case request_all hostname calls s1 of (rs, s2) \<Rightarrow> ((out, n, outs) # rs, s2)))"











section \<open>The send loop\<close>

lemmas run_simps =
  request_def executeRequest_def send_loop.simps attempt_outcome_def no_retry_def
  recordFailure_def resetCircuitBreaker_def isCircuitOpen_def checkRateLimit_def
  getFromCache_def setCache_def cache_read_key_def cache_lookup_def extractDomain_def settle_def
  RATE_LIMITS_def getCacheTTL_def ttlMap_def num_or_def failureThreshold_def resetTimeout_def
  lookup_property_def object_prototype_names_def plus_window_def below_quota_def ge_num_def
  past_ttl_def test_hostname_def plain_request_def new_optimizer_def Let_def

declare send_loop.simps [simp del]

lemma failures_of_recordFailure:
  "failures_of (recordFailure domain now s) domain = Suc (failures_of s domain)"
  by (simp add: failures_of_def recordFailure_def Let_def split: option.splits)

text \<open>
  A send that rejects has failed in every attempt it made: each one recorded a failure,
  and the error it rejects with is the last attempt's.
\<close>

lemma send_loop_rejected:
  "send_loop cfg domain net r a le s = (Inl e, n, s') \<Longrightarrow>
     a \<le> n \<and> failures_of s' domain = failures_of s domain + (n - a) \<and>
     (a < n \<longrightarrow> attempt_outcome (fst (net (n - 1))) = Inl e) \<and>
     (a = n \<longrightarrow> e = (case le of Some e' \<Rightarrow> e'
                      | None \<Rightarrow> JsError ''Error'' ''Request failed after all retries''))"
proof (induction cfg domain net r a le s rule: send_loop.induct)
  case (1 cfg domain net r a le s)
  show ?case
  proof (cases "int a \<le> r")
    case False
    with "1.prems" show ?thesis by (auto simp: send_loop.simps[of _ _ _ _ a])
  next
    case True
    obtain fr now where net: "net a = (fr, now)" by (cases "net a")
    show ?thesis
    proof (cases "attempt_outcome fr")
      case (Inr d)
      with True net "1.prems" show ?thesis by (simp add: send_loop.simps[of _ _ _ _ a])
    next
      case (Inl e')
      show ?thesis
      proof (cases "no_retry e'")
        case nr: True
        with True net Inl "1.prems" show ?thesis
          by (auto simp: failures_of_recordFailure send_loop.simps[of _ _ _ _ a])
      next
        case nr: False
        from True net Inl nr "1.prems"
        have rec: "send_loop cfg domain net r (Suc a) (Some e') (recordFailure domain now s)
                   = (Inl e, n, s')"
          by (simp add: send_loop.simps[of _ _ _ _ a])
        from "1.IH"[OF True net[symmetric] Inl refl nr rec]
        have le: "Suc a \<le> n"
          and fl: "failures_of s' domain = Suc (failures_of s domain) + (n - Suc a)"
          and last: "Suc a < n \<longrightarrow> attempt_outcome (fst (net (n - 1))) = Inl e"
          and same: "Suc a = n \<longrightarrow> e = e'"
          by (simp_all add: failures_of_recordFailure)
        have "attempt_outcome (fst (net (n - 1))) = Inl e"
        proof (cases "Suc a < n")
          case True
          with last show ?thesis by simp
        next
          case False
          with le have n: "n = Suc a" by simp
          with same have "e = e'" by simp
          with n net Inl show ?thesis by simp
        qed
        with le fl show ?thesis by simp
      qed
    qed
  qed
qed

text \<open>When every attempt fails with an error that is retried, the loop runs to its bound.\<close>

lemma send_loop_all_fail:
  assumes "\<forall>k. a \<le> k \<and> int k \<le> r \<longrightarrow>
             (\<exists>e. attempt_outcome (fst (net k)) = Inl e \<and> \<not> no_retry e)"
    and "int a \<le> r + 1"
  shows "fst (snd (send_loop cfg domain net r a le s)) = nat (r + 1) \<and>
         (\<exists>e. fst (send_loop cfg domain net r a le s) = Inl e \<and>
           (if int a \<le> r then attempt_outcome (fst (net (nat r))) = Inl e
            else e = (case le of Some e' \<Rightarrow> e'
                      | None \<Rightarrow> JsError ''Error'' ''Request failed after all retries'')))"
  using assms
proof (induction cfg domain net r a le s rule: send_loop.induct)
  case (1 cfg domain net r a le s)
  show ?case
  proof (cases "int a \<le> r")
    case False
    with "1.prems" have "int a = r + 1" by simp
    with False show ?thesis
      by (simp add: send_loop.simps[of _ _ _ _ a] split: option.splits)
  next
    case True
    obtain fr now where net: "net a = (fr, now)" by (cases "net a")
    from "1.prems"(1) True obtain e'
      where e': "attempt_outcome (fst (net a)) = Inl e'" "\<not> no_retry e'"
      by blast
    with net have out: "attempt_outcome fr = Inl e'" by simp
    have step: "send_loop cfg domain net r a le s =
                send_loop cfg domain net r (Suc a) (Some e') (recordFailure domain now s)"
      using True net out e'(2) by (simp add: send_loop.simps[of _ _ _ _ a])
    have pre1: "\<forall>k. Suc a \<le> k \<and> int k \<le> r \<longrightarrow>
                  (\<exists>e. attempt_outcome (fst (net k)) = Inl e \<and> \<not> no_retry e)"
      using "1.prems"(1) by auto
    have pre2: "int (Suc a) \<le> r + 1" using True by simp
    note IH = "1.IH"[OF True net[symmetric] out refl e'(2) pre1 pre2]
    show ?thesis
    proof (cases "int (Suc a) \<le> r")
      case T2: True
      with IH step True show ?thesis by simp
    next
      case F2: False
      with True have "nat r = a" by simp
      with IH step True F2 e'(1) show ?thesis by simp
    qed
  qed
qed

lemma send_loop_mono: "a \<le> fst (snd (send_loop cfg domain net r a le s))"
proof (induction cfg domain net r a le s rule: send_loop.induct)
  case (1 cfg domain net r a le s)
  show ?case
  proof (cases "int a \<le> r")
    case False
    then show ?thesis by (simp add: send_loop.simps[of _ _ _ _ a])
  next
    case True
    obtain fr now where net: "net a = (fr, now)" by (cases "net a")
    show ?thesis
    proof (cases "attempt_outcome fr")
      case (Inr d)
      with True net show ?thesis by (simp add: send_loop.simps[of _ _ _ _ a])
    next
      case (Inl e')
      show ?thesis
      proof (cases "no_retry e'")
        case nr: True
        with True net Inl show ?thesis by (simp add: send_loop.simps[of _ _ _ _ a])
      next
        case nr: False
        from "1.IH"[OF True net[symmetric] Inl refl nr]
        have "Suc a \<le> fst (snd (send_loop cfg domain net r (Suc a) (Some e')
                                   (recordFailure domain now s)))" .
        with True net Inl nr show ?thesis by (simp add: send_loop.simps[of _ _ _ _ a])
      qed
    qed
  qed
qed

text \<open>A send with a retry count that is not negative calls \<^verbatim>\<open>fetch\<close> at least once.\<close>

lemma executeRequest_attempts_pos:
  assumes "0 \<le> (case retries cfg of None \<Rightarrow> 3 | Some k \<Rightarrow> k)"
  shows "0 < fst (snd (executeRequest hostname cfg net s))"
proof -
  let ?r = "case retries cfg of None \<Rightarrow> 3 | Some k \<Rightarrow> k"
  let ?dom = "extractDomain hostname (url cfg)"
  obtain fr now where net: "net 0 = (fr, now)" by (cases "net 0")
  show ?thesis
  proof (cases "attempt_outcome fr")
    case (Inr d)
    with assms net show ?thesis by (simp add: executeRequest_def send_loop.simps[of _ _ _ _ 0])
  next
    case (Inl e')
    show ?thesis
    proof (cases "no_retry e'")
      case True
      with assms net Inl show ?thesis
        by (simp add: executeRequest_def send_loop.simps[of _ _ _ _ 0])
    next
      case False
      have "Suc 0 \<le> fst (snd (send_loop cfg ?dom net ?r (Suc 0) (Some e')
                                 (recordFailure ?dom now s)))"
        by (rule send_loop_mono)
      with assms net Inl False show ?thesis
        by (simp add: executeRequest_def send_loop.simps[of _ _ _ _ 0])
    qed
  qed
qed

section \<open>Retry count\<close>

text \<open>
  C6. A request with retry count \<open>r\<close> (3 when the configuration leaves it out) whose
  every attempt fails with an error that the loop retries makes exactly \<open>r + 1\<close> calls of
  \<^verbatim>\<open>fetch\<close> and then rejects with the error of the last attempt.
\<close>

theorem C6_retries_plus_one_attempts:
  assumes "n_retries = (case retries cfg of None \<Rightarrow> 3 | Some r \<Rightarrow> r)"
    and "0 \<le> n_retries"
    and "\<forall>k. int k \<le> n_retries \<longrightarrow>
           (\<exists>e. attempt_outcome (fst (net k)) = Inl e \<and> \<not> no_retry e)"
  shows "\<exists>e s'. executeRequest hostname cfg net s = (Inl e, nat n_retries + 1, s') \<and>
                attempt_outcome (fst (net (nat n_retries))) = Inl e"
proof -
  let ?run = "send_loop cfg (extractDomain hostname (url cfg)) net n_retries 0 None s"
  have "fst (snd ?run) = nat (n_retries + 1) \<and>
        (\<exists>e. fst ?run = Inl e \<and> attempt_outcome (fst (net (nat n_retries))) = Inl e)"
    using send_loop_all_fail[of 0 n_retries net cfg "extractDomain hostname (url cfg)" None s]
      assms(2,3)
    by simp
  then obtain e where e: "fst ?run = Inl e" "attempt_outcome (fst (net (nat n_retries))) = Inl e"
    and n: "fst (snd ?run) = nat (n_retries + 1)" by blast
  have "?run = (Inl e, nat n_retries + 1, snd (snd ?run))"
    using e(1) n assms(2) by (cases ?run) (simp add: nat_add_distrib)
  with e(2) show ?thesis
    unfolding executeRequest_def assms(1)[symmetric] by blast
qed

text \<open>The default of three retries against the endpoint that always answers 500.\<close>

theorem C6_retries_plus_one_attempts_witness:
  "fst (executeRequest test_hostname (plain_request ''https://example.com/data'')
          always_500 new_optimizer)
     = Inl (JsError ''Error'' ''HTTP 500: Internal Server Error'') \<and>
   fst (snd (executeRequest test_hostname (plain_request ''https://example.com/data'')
               always_500 new_optimizer)) = 4"
proof -
  have h1: "(3::int) = (case retries (plain_request ''https://example.com/data'') of
                          None \<Rightarrow> 3 | Some r \<Rightarrow> r)"
    by (simp add: plain_request_def)
  have h2: "(0::int) \<le> 3" by simp
  have h3: "\<forall>k. int k \<le> 3 \<longrightarrow>
              (\<exists>e. attempt_outcome (fst (always_500 k)) = Inl e \<and> \<not> no_retry e)"
    by (simp add: always_500_def attempt_outcome_def no_retry_def)
  have h4: "attempt_outcome (fst (always_500 (nat 3)))
              = Inl (JsError ''Error'' ''HTTP 500: Internal Server Error'')"
    by (simp add: always_500_def attempt_outcome_def digit_char_def)
  from C6_retries_plus_one_attempts[OF h1 h2 h3, of test_hostname new_optimizer]
  obtain e s' where
    "executeRequest test_hostname (plain_request ''https://example.com/data'') always_500
       new_optimizer = (Inl e, nat 3 + 1, s')"
    and "attempt_outcome (fst (always_500 (nat 3))) = Inl e"
    by blast
  with h4 show ?thesis by simp
qed

section \<open>Failures recorded by a send\<close>

lemma always_500_run:
  "executeRequest test_hostname (plain_request ''https://example.com/data'') always_500
     new_optimizer
   = (Inl (JsError ''Error'' ''HTTP 500: Internal Server Error''), 4,
      snd (snd (executeRequest test_hostname (plain_request ''https://example.com/data'')
                  always_500 new_optimizer)))"
  by (simp add: prod_eq_iff executeRequest_def send_loop.simps plain_request_def always_500_def
        attempt_outcome_def no_retry_def Let_def digit_char_def)

text \<open>
  C4, as stated, fails: the \<^verbatim>\<open>catch\<close> block calls \<^verbatim>\<open>recordFailure\<close> in every attempt.
  A send with the default three retries against the endpoint that always answers 500
  starts from a breaker without failures and leaves four, not one.
\<close>

theorem C4_counterexample:
  "failures_of new_optimizer ''example.com'' = 0 \<and>
   failures_of (snd (snd (executeRequest test_hostname
       (plain_request ''https://example.com/data'') always_500 new_optimizer))) ''example.com'' = 4"
  by (simp add: executeRequest_def send_loop.simps plain_request_def always_500_def
        attempt_outcome_def no_retry_def recordFailure_def Let_def failures_of_def
        new_optimizer_def extractDomain_def test_hostname_def failureThreshold_def)

text \<open>
  C4, amended. A direct send that rejects after \<open>n\<close> calls of \<^verbatim>\<open>fetch\<close> has recorded
  exactly \<open>n\<close> failures against the target domain's breaker, one for each failed attempt,
  and the error it propagates is the one of its last attempt.
\<close>

theorem C4_one_failure_per_attempt:
  assumes "executeRequest hostname cfg net s = (Inl e, n, s')"
  shows "failures_of s' (extractDomain hostname (url cfg))
           = failures_of s (extractDomain hostname (url cfg)) + n \<and>
         (0 < n \<longrightarrow> attempt_outcome (fst (net (n - 1))) = Inl e)"
  using send_loop_rejected[OF assms[unfolded executeRequest_def]] by simp

theorem C4_one_failure_per_attempt_witness:
  "failures_of (snd (snd (executeRequest test_hostname
       (plain_request ''https://example.com/data'') always_500 new_optimizer))) ''example.com''
     = failures_of new_optimizer ''example.com'' + 4 \<and>
   attempt_outcome (fst (always_500 3))
     = Inl (JsError ''Error'' ''HTTP 500: Internal Server Error'')"
  using C4_one_failure_per_attempt[OF always_500_run]
  by (simp add: extractDomain_def test_hostname_def plain_request_def)

section \<open>The cache after a send\<close>

lemma map_get_map_set: "map_get (map_set m k v) k = Some v"
  by (induction m) auto

lemma map_get_cleanup_entries:
  "map_get m k = Some c \<Longrightarrow> \<not> past_ttl now (timestamp c) (ttl c)
     \<Longrightarrow> map_get (cleanup_entries now m) k = Some c"
  by (induction m) (auto split: if_splits)

text \<open>An entry is not yet stale at the moment it is written.\<close>

lemma getCacheTTL_fresh: "\<not> past_ttl now now (getCacheTTL domain)"
  by (simp add: getCacheTTL_def past_ttl_def split: property.splits)

lemma map_get_setCache:
  "\<not> past_ttl now now t \<Longrightarrow> map_get (requestCache (setCache key d t now s)) key
             = Some \<lparr>data = d, timestamp = now, ttl = t\<rparr>"
  by (simp add: setCache_def Let_def cleanupCache_def map_get_map_set map_get_cleanup_entries)

text \<open>
  A send that resolves made at least one call, resolves with the payload of its last
  attempt, has deleted the domain's breaker and, given a cache key, has stored the
  payload under it with the time of that attempt and the domain's time-to-live.
\<close>

lemma send_loop_resolved:
  "send_loop cfg domain net r a le s = (Inr d, n, s') \<Longrightarrow>
     a < n \<and> attempt_outcome (fst (net (n - 1))) = Inr d \<and> circuitBreaker s' domain = None \<and>
     (\<forall>key. cacheKey cfg = Some key \<and> key \<noteq> [] \<longrightarrow>
        map_get (requestCache s') key
          = Some \<lparr>data = d, timestamp = snd (net (n - 1)), ttl = getCacheTTL domain\<rparr>)"
proof (induction cfg domain net r a le s rule: send_loop.induct)
  case (1 cfg domain net r a le s)
  show ?case
  proof (cases "int a \<le> r")
    case False
    with "1.prems" show ?thesis by (auto simp: send_loop.simps[of _ _ _ _ a])
  next
    case True
    obtain fr now where net: "net a = (fr, now)" by (cases "net a")
    show ?thesis
    proof (cases "attempt_outcome fr")
      case (Inr d')
      with True net "1.prems" show ?thesis
        by (auto simp: send_loop.simps[of _ _ _ _ a] resetCircuitBreaker_def map_get_setCache
              getCacheTTL_fresh)
    next
      case (Inl e')
      show ?thesis
      proof (cases "no_retry e'")
        case nr: True
        with True net Inl "1.prems" show ?thesis
          by (auto simp: send_loop.simps[of _ _ _ _ a])
      next
        case nr: False
        from True net Inl nr "1.prems"
        have rec: "send_loop cfg domain net r (Suc a) (Some e') (recordFailure domain now s)
                   = (Inr d, n, s')"
          by (simp add: send_loop.simps[of _ _ _ _ a])
        from "1.IH"[OF True net[symmetric] Inl refl nr rec]
        show ?thesis by auto
      qed
    qed
  qed
qed

section \<open>Cache hits\<close>

lemma getFromCache_hit:
  "map_get (requestCache s) key = Some c \<Longrightarrow> \<not> past_ttl now (timestamp c) (ttl c)
     \<Longrightarrow> getFromCache key now s = (data c, s)"
  by (simp add: getFromCache_def)

lemma request_cache_hit:
  assumes "cache_read_key cfg = Some key"
    and "map_get (requestCache s) key = Some c"
    and "\<not> past_ttl now (timestamp c) (ttl c)"
    and "truthy (data c)"
  shows "request hostname cfg now new_id clock nets net s = (Fulfilled (data c), 0, [], s)"
  using assms by (simp add: request_def cache_lookup_def getFromCache_hit Let_def)

text \<open>A request fulfilled after calls of \<^verbatim>\<open>fetch\<close> was fulfilled by its direct send.\<close>

lemma request_fulfilled_by_network:
  assumes "request hostname cfg now new_id clock nets net s = (Fulfilled d, n, outs, s')"
    and "0 < n"
  shows "\<exists>s3. executeRequest hostname cfg net s3 = (Inr d, n, s')"
  using assms
  by (auto simp: request_def cache_lookup_def settle_def Let_def
        split: prod.splits if_splits sum.splits option.splits)

lemma request_fulfilled_uncached:
  assumes "request hostname cfg now new_id clock nets net s = (Fulfilled d, n, outs, s')"
    and "cache_read_key cfg = None"
  shows "\<exists>s3. executeRequest hostname cfg net s3 = (Inr d, n, s')"
  using assms
  by (auto simp: request_def cache_lookup_def settle_def Let_def
        split: prod.splits if_splits sum.splits option.splits)

lemma request_stores_payload:
  assumes "request hostname cfg now new_id clock nets net s = (Fulfilled d, n, outs, s')"
    and "0 < n" and "cacheKey cfg = Some key" and "key \<noteq> []"
  shows "map_get (requestCache s') key
          = Some \<lparr>data = d, timestamp = snd (net (n - 1)),
                  ttl = getCacheTTL (extractDomain hostname (url cfg))\<rparr>"
proof -
  from request_fulfilled_by_network[OF assms(1,2)]
  obtain s3 where "executeRequest hostname cfg net s3 = (Inr d, n, s')" by blast
  from send_loop_resolved[OF this[unfolded executeRequest_def]] assms(3,4)
  show ?thesis by simp
qed

text \<open>
  C7, as stated, fails: \<^verbatim>\<open>request\<close> takes the cached payload only when it is truthy
  (\<^verbatim>\<open>if (cached)\<close>), and \<^verbatim>\<open>getFromCache\<close> answers a miss with \<^verbatim>\<open>null\<close>. After a request
  whose endpoint answered \<^verbatim>\<open>null\<close>, the entry is in the cache, and a second request with
  the same key at time 20, well inside the 900000 ms of the entry, calls \<^verbatim>\<open>fetch\<close> again.
\<close>

theorem C7_counterexample:
  "map_get (requestCache after_null_payload) ''k''
     = Some \<lparr>data = JNull, timestamp = 10, ttl = Num 900000\<rparr> \<and>
   fst (snd (request test_hostname (keyed_request ''https://example.com/data'' ''k'') 20 ''b''
        (frozen_clock 20) idle_nets (answers JNull 30) after_null_payload)) = 1"
  by (simp add: after_null_payload_def run_simps keyed_request_def answers_def)

text \<open>
  C7, amended. Let a request with a non-empty cache key be fulfilled over the network
  with a truthy payload \<open>d\<close>. Then every later sequence of requests with that key and the
  skip-cache flag unset, each issued no later than the entry's timestamp plus its
  time-to-live, returns \<open>d\<close> at every call, without a call of \<^verbatim>\<open>fetch\<close>, without
  touching the queue, and leaves the state as it was.
\<close>

theorem C7_cached_payload_served:
  assumes "request hostname cfg1 now1 id1 clock1 nets1 net1 s0 = (Fulfilled d, n, outs, s1)"
    and "0 < n"
    and "cacheKey cfg1 = Some key" and "key \<noteq> []"
    and "truthy d"
    and "\<forall>(cfg, now, new_id, clock, nets, net) \<in> set calls.
           cacheKey cfg = Some key \<and> skipCache cfg \<noteq> Some True \<and>
           \<not> past_ttl now (snd (net1 (n - 1)))
                 (getCacheTTL (extractDomain hostname (url cfg1)))"
  shows "request_all hostname calls s1 = (map (\<lambda>call. (Fulfilled d, 0, [])) calls, s1)"
proof -
  have entry: "map_get (requestCache s1) key
          = Some \<lparr>data = d, timestamp = snd (net1 (n - 1)),
                  ttl = getCacheTTL (extractDomain hostname (url cfg1))\<rparr>"
    using request_stores_payload[OF assms(1-4)] .
  show ?thesis using assms(6)
  proof (induction calls)
    case Nil
    then show ?case by simp
  next
    case (Cons call calls)
    obtain cfg now new_id clock nets net where call: "call = (cfg, now, new_id, clock, nets, net)"
      by (cases call)
    from Cons.prems call have k: "cache_read_key cfg = Some key"
      and t: "\<not> past_ttl now (snd (net1 (n - 1)))
                 (getCacheTTL (extractDomain hostname (url cfg1)))"
      using assms(4) by (auto simp: cache_read_key_def)
    have "request hostname cfg now new_id clock nets net s1 = (Fulfilled d, 0, [], s1)"
      using request_cache_hit[OF k entry] t assms(5) by simp
    moreover have "request_all hostname calls s1
                     = (map (\<lambda>call. (Fulfilled d, 0, [])) calls, s1)"
      using Cons by simp
    ultimately show ?case by (simp add: call)
  qed
qed

lemma first_run_7:
  "request test_hostname (keyed_request ''https://example.com/data'' ''k'') 0 ''a''
        (frozen_clock 0) idle_nets (answers (JNum 7) 10) new_optimizer
   = (Fulfilled (JNum 7), 1, [],
      snd (snd (snd (request test_hostname (keyed_request ''https://example.com/data'' ''k'')
        0 ''a'' (frozen_clock 0) idle_nets (answers (JNum 7) 10) new_optimizer))))"
  by (simp add: prod_eq_iff run_simps keyed_request_def answers_def)

theorem C7_cached_payload_served_witness:
  "request_all test_hostname
     [(keyed_request ''https://example.com/data'' ''k'', 20, ''b'', frozen_clock 20, idle_nets,
       always_500),
      (keyed_request ''https://example.com/data'' ''k'', 900010, ''c'', frozen_clock 900010,
       idle_nets, always_500)]
     (snd (snd (snd (request test_hostname (keyed_request ''https://example.com/data'' ''k'')
        0 ''a'' (frozen_clock 0) idle_nets (answers (JNum 7) 10) new_optimizer))))
   = ([(Fulfilled (JNum 7), 0, []), (Fulfilled (JNum 7), 0, [])],
      snd (snd (snd (request test_hostname (keyed_request ''https://example.com/data'' ''k'')
        0 ''a'' (frozen_clock 0) idle_nets (answers (JNum 7) 10) new_optimizer))))"
proof -
  have h2: "(0::nat) < 1" by simp
  have h3: "cacheKey (keyed_request ''https://example.com/data'' ''k'') = Some ''k''"
    by (simp add: keyed_request_def)
  have h4: "''k'' \<noteq> []" by simp
  have h5: "truthy (JNum 7)" by simp
  have h6: "\<forall>(cfg, now, new_id, clock, nets, net) \<in> set
     [(keyed_request ''https://example.com/data'' ''k'', 20, ''b'', frozen_clock 20, idle_nets,
       always_500),
      (keyed_request ''https://example.com/data'' ''k'', 900010, ''c'', frozen_clock 900010,
       idle_nets, always_500)].
           cacheKey cfg = Some ''k'' \<and> skipCache cfg \<noteq> Some True \<and>
           \<not> past_ttl now (snd (answers (JNum 7) 10 (1 - 1)))
                 (getCacheTTL (extractDomain test_hostname
                    (url (keyed_request ''https://example.com/data'' ''k''))))"
    by (simp add: keyed_request_def plain_request_def answers_def getCacheTTL_def ttlMap_def
          lookup_property_def object_prototype_names_def past_ttl_def
          extractDomain_def test_hostname_def)
  from C7_cached_payload_served[OF first_run_7 h2 h3 h4 h5 h6] show ?thesis by simp
qed

section \<open>The skip-cache flag\<close>

text \<open>
  C10, as stated, fails for the same reason as C7: the skipping request stores the
  \<^verbatim>\<open>null\<close> its endpoint answered, and the later request with the flag unset, at time 20,
  does not take it from the cache but calls \<^verbatim>\<open>fetch\<close>.
\<close>

theorem C10_counterexample:
  "map_get (requestCache (snd (snd (snd (request test_hostname
       (skipping_request ''https://example.com/data'' ''k'') 0 ''a'' (frozen_clock 0) idle_nets
       (answers JNull 10) new_optimizer))))) ''k''
     = Some \<lparr>data = JNull, timestamp = 10, ttl = Num 900000\<rparr> \<and>
   fst (snd (request test_hostname (keyed_request ''https://example.com/data'' ''k'') 20 ''b''
        (frozen_clock 20) idle_nets (answers JNull 30)
        (snd (snd (snd (request test_hostname
           (skipping_request ''https://example.com/data'' ''k'') 0 ''a'' (frozen_clock 0) idle_nets
           (answers JNull 10) new_optimizer)))))) = 1"
  by (simp add: run_simps skipping_request_def keyed_request_def answers_def)

text \<open>
  C10, amended. A request with the skip-cache flag set and a non-empty cache key that is
  fulfilled has called \<^verbatim>\<open>fetch\<close> and has written its payload to the cache under that
  key, whatever the cache held. If the payload is truthy, a later request with the same
  key and the flag unset, issued no later than the entry's timestamp plus its
  time-to-live, returns that payload without a call of \<^verbatim>\<open>fetch\<close>.
\<close>

theorem C10_skip_cache_still_writes:
  assumes "request hostname cfg1 now1 id1 clock1 nets1 net1 s0 = (Fulfilled d, n, outs, s1)"
    and "skipCache cfg1 = Some True"
    and "cacheKey cfg1 = Some key" and "key \<noteq> []"
  shows "0 < n \<and>
     map_get (requestCache s1) key
       = Some \<lparr>data = d, timestamp = snd (net1 (n - 1)),
               ttl = getCacheTTL (extractDomain hostname (url cfg1))\<rparr> \<and>
     (truthy d \<and> cacheKey cfg2 = Some key \<and> skipCache cfg2 \<noteq> Some True \<and>
      \<not> past_ttl now2 (snd (net1 (n - 1)))
            (getCacheTTL (extractDomain hostname (url cfg1)))
        \<longrightarrow> request hostname cfg2 now2 id2 clock2 nets2 net2 s1 = (Fulfilled d, 0, [], s1))"
proof -
  have "cache_read_key cfg1 = None" using assms(2,3) by (simp add: cache_read_key_def)
  from request_fulfilled_uncached[OF assms(1) this]
  obtain s3 where ex: "executeRequest hostname cfg1 net1 s3 = (Inr d, n, s1)" by blast
  from send_loop_resolved[OF ex[unfolded executeRequest_def]] assms(3,4)
  have n: "0 < n" and entry: "map_get (requestCache s1) key
       = Some \<lparr>data = d, timestamp = snd (net1 (n - 1)),
               ttl = getCacheTTL (extractDomain hostname (url cfg1))\<rparr>"
    by simp_all
  have "request hostname cfg2 now2 id2 clock2 nets2 net2 s1 = (Fulfilled d, 0, [], s1)"
    if "truthy d" "cacheKey cfg2 = Some key" "skipCache cfg2 \<noteq> Some True"
       "\<not> past_ttl now2 (snd (net1 (n - 1)))
            (getCacheTTL (extractDomain hostname (url cfg1)))"
  proof -
    have "cache_read_key cfg2 = Some key"
      using that(2,3) assms(4) by (simp add: cache_read_key_def)
    from request_cache_hit[OF this entry] that(1,4) show ?thesis by simp
  qed
  with n entry show ?thesis by blast
qed

text \<open>
  The cache already holds 7 under the key; the skipping request fetches 8 all the same
  and overwrites the entry, and the next request with the flag unset is served 8.
\<close>

lemma skipping_run_8:
  "request test_hostname (skipping_request ''https://example.com/data'' ''k'') 50 ''b''
        (frozen_clock 50) idle_nets (answers (JNum 8) 60) after_payload_7
   = (Fulfilled (JNum 8), 1, [], after_skipping_8)"
  by (simp add: prod_eq_iff after_skipping_8_def after_payload_7_def run_simps
        skipping_request_def keyed_request_def answers_def)

theorem C10_skip_cache_still_writes_witness:
  "map_get (requestCache after_skipping_8) ''k''
     = Some \<lparr>data = JNum 8, timestamp = 60, ttl = Num 900000\<rparr> \<and>
   request test_hostname (keyed_request ''https://example.com/data'' ''k'') 70 ''c''
     (frozen_clock 70) idle_nets always_500 after_skipping_8
   = (Fulfilled (JNum 8), 0, [], after_skipping_8)"
proof -
  have h2: "skipCache (skipping_request ''https://example.com/data'' ''k'') = Some True"
    by (simp add: skipping_request_def)
  have h3: "cacheKey (skipping_request ''https://example.com/data'' ''k'') = Some ''k''"
    by (simp add: skipping_request_def keyed_request_def)
  have h4: "''k'' \<noteq> []" by simp
  have ttl: "getCacheTTL (extractDomain test_hostname
               (url (skipping_request ''https://example.com/data'' ''k''))) = Num 900000"
    by (simp add: skipping_request_def keyed_request_def plain_request_def getCacheTTL_def
          ttlMap_def lookup_property_def object_prototype_names_def
          extractDomain_def test_hostname_def)
  have h5: "truthy (JNum 8) \<and>
        cacheKey (keyed_request ''https://example.com/data'' ''k'') = Some ''k'' \<and>
        skipCache (keyed_request ''https://example.com/data'' ''k'') \<noteq> Some True \<and>
        \<not> past_ttl 70 (snd (answers (JNum 8) 60 (1 - 1))) (Num 900000)"
    by (simp add: keyed_request_def plain_request_def answers_def past_ttl_def)
  from C10_skip_cache_still_writes[OF skipping_run_8 h2 h3 h4,
      of "keyed_request ''https://example.com/data'' ''k''" 70 "''c''" "frozen_clock 70" idle_nets
         always_500] h5 ttl
  show ?thesis by (simp add: answers_def)
qed

section \<open>The \<^verbatim>\<open>fromCache\<close> flag of a batch outcome\<close>

text \<open>
  C9, as stated, fails: the flag is \<^verbatim>\<open>!!this.getFromCache(key)\<close>, the truthiness of the
  cached payload. The request whose endpoint answered \<^verbatim>\<open>null\<close> was fulfilled over the
  network and its payload written to the cache, yet its outcome reports \<^verbatim>\<open>fromCache\<close>
  as false.
\<close>

theorem C9_counterexample:
  "fst (request test_hostname (keyed_request ''https://example.com/data'' ''k'')
        0 ''a'' (frozen_clock 0) idle_nets (answers JNull 10) new_optimizer) = Fulfilled JNull \<and>
   fst (snd (request test_hostname (keyed_request ''https://example.com/data'' ''k'')
        0 ''a'' (frozen_clock 0) idle_nets (answers JNull 10) new_optimizer)) = 1 \<and>
   map_get (requestCache after_null_payload) ''k''
     = Some \<lparr>data = JNull, timestamp = 10, ttl = Num 900000\<rparr> \<and>
   fromCache (fst (batch_item (keyed_request ''https://example.com/data'' ''k'') 0
                     (Inr JNull) 10 after_null_payload)) = Some False"
  by (simp add: after_null_payload_def batch_item_def run_simps keyed_request_def answers_def)

text \<open>
  C9, amended. In a batch, the \<^verbatim>\<open>fromCache\<close> flag of a successful outcome is computed by
  reading the cache again once the request has settled. For a request with a non-empty
  cache key that was fulfilled over the network with a truthy payload, and whose outcome
  is built no later than the entry's timestamp plus its time-to-live, the outcome reports
  \<^verbatim>\<open>fromCache\<close> as true although the payload came from the network.
\<close>

theorem C9_fromCache_after_network:
  assumes "request hostname cfg now new_id clock nets net s = (Fulfilled d, n, outs, s1)"
    and "0 < n"
    and "cacheKey cfg = Some key" and "key \<noteq> []"
    and "truthy d"
    and "\<not> past_ttl endTime (snd (net (n - 1)))
             (getCacheTTL (extractDomain hostname (url cfg)))"
  shows "batch_item cfg startTime (Inr d) endTime s1
           = (\<lparr>success = True, result_data = Some d, result_error = None,
                duration = endTime - startTime, fromCache = Some True\<rparr>, s1)"
proof -
  have "getFromCache key endTime s1 = (d, s1)"
    using getFromCache_hit[OF request_stores_payload[OF assms(1-4)]] assms(6) by simp
  with assms(3,4,5) show ?thesis by (simp add: batch_item_def)
qed

theorem C9_fromCache_after_network_witness:
  "batch_item (keyed_request ''https://example.com/data'' ''k'') 0 (Inr (JNum 7)) 10
     (snd (snd (snd (request test_hostname (keyed_request ''https://example.com/data'' ''k'')
        0 ''a'' (frozen_clock 0) idle_nets (answers (JNum 7) 10) new_optimizer))))
   = (\<lparr>success = True, result_data = Some (JNum 7), result_error = None,
        duration = 10 - 0, fromCache = Some True\<rparr>,
      snd (snd (snd (request test_hostname (keyed_request ''https://example.com/data'' ''k'')
        0 ''a'' (frozen_clock 0) idle_nets (answers (JNum 7) 10) new_optimizer))))"
proof -
  have h2: "(0::nat) < 1" by simp
  have h3: "cacheKey (keyed_request ''https://example.com/data'' ''k'') = Some ''k''"
    by (simp add: keyed_request_def)
  have h4: "''k'' \<noteq> []" by simp
  have h5: "truthy (JNum 7)" by simp
  have h6: "\<not> past_ttl 10 (snd (answers (JNum 7) 10 (1 - 1)))
              (getCacheTTL (extractDomain test_hostname
                  (url (keyed_request ''https://example.com/data'' ''k''))))"
    by (simp add: keyed_request_def plain_request_def answers_def getCacheTTL_def ttlMap_def
          lookup_property_def object_prototype_names_def past_ttl_def
          extractDomain_def test_hostname_def)
  from C9_fromCache_after_network[OF first_run_7 h2 h3 h4 h5 h6, of 0] show ?thesis .
qed

section \<open>Batches return one outcome for each request\<close>



section \<open>Queue order\<close>

lemmas queue_simps =
  queueRequest_def processQueue_def queue_insert_def getPriorityIndex_def priorities_def

text \<open>
  C1 at a failing input. \<^verbatim>\<open>getPriorityIndex\<close> reads the table with \<^verbatim>\<open>|| 1\<close>, and the
  rank 0 of \<^verbatim>\<open>high\<close> is falsy, so \<^verbatim>\<open>high\<close> gets the rank of \<^verbatim>\<open>medium\<close>. A
  medium-priority request queued before a high-priority one stays ahead of it in the
  queue, and the drain sends it first.
\<close>

theorem C1_high_after_medium:
  "getPriorityIndex High = getPriorityIndex Medium \<and>
   map req_id (requestQueue medium_then_high) = [''m'', ''h''] \<and>
   map fst (fst (processQueue test_hostname stepping_clock numbered_nets medium_then_high))
     = [''m'', ''h'']"
  by (simp add: medium_then_high_def nominatim_used_def prioritised_def run_simps queue_simps
        stepping_clock_def numbered_nets_def answers_def frozen_clock_def)

subsection \<open>What does hold of the queue\<close>

lemma set_queue_insert: "set (queue_insert q qs) = insert q (set qs)"
proof (cases "find_index (\<lambda>req. priority_index req > priority_index q) qs")
  case None
  then show ?thesis by (simp add: queue_insert_def)
next
  case (Some i)
  have "set (take i qs) \<union> set (drop i qs) = set qs"
    by (metis append_take_drop_id set_append)
  then have "set (take i qs @ [q] @ drop i qs) = insert q (set qs)" by auto
  with Some show ?thesis by (simp add: queue_insert_def)
qed

text \<open>The insertion, read as a recursion over the queue.\<close>

lemma queue_insert_Nil: "queue_insert q [] = [q]"
  by (simp add: queue_insert_def)

lemma queue_insert_Cons:
  "queue_insert q (x # xs)
     = (if priority_index x > priority_index q then q # x # xs else x # queue_insert q xs)"
  by (simp add: queue_insert_def split: option.splits)

text \<open>
  The queue stays ordered by the rank that \<^verbatim>\<open>getPriorityIndex\<close> computes, and among
  entries of one rank an inserted entry goes last.
\<close>

lemma sorted_queue_insert:
  "sorted (map priority_index qs) \<Longrightarrow> sorted (map priority_index (queue_insert q qs))"
proof (induction qs)
  case Nil
  show ?case by (simp add: queue_insert_Nil)
next
  case (Cons x xs)
  then show ?case
    by (auto simp: queue_insert_Cons set_queue_insert)
qed

lemma queue_insert_fifo:
  "sorted (map priority_index qs) \<Longrightarrow>
     filter (\<lambda>x. priority_index x = k) (queue_insert q qs)
       = filter (\<lambda>x. priority_index x = k) qs @ (if priority_index q = k then [q] else [])"
proof (induction qs)
  case Nil
  show ?case by (simp add: queue_insert_Nil)
next
  case (Cons x xs)
  show ?case
  proof (cases "priority_index x > priority_index q")
    case True
    with Cons.prems have "\<forall>y \<in> set (x # xs). priority_index q < priority_index y" by auto
    then have "priority_index q = k \<Longrightarrow> filter (\<lambda>x. priority_index x = k) (x # xs) = []"
      by (auto simp: filter_empty_conv)
    with True show ?thesis by (auto simp: queue_insert_Cons)
  next
    case False
    with Cons show ?thesis by (simp add: queue_insert_Cons)
  qed
qed

text \<open>
  The example of C1 does hold: queued as low, high, medium, the requests stand and are
  sent as high, medium, low, since low has the last rank and high was queued before
  medium.
\<close>

lemma low_high_medium_order:
  "map req_id (requestQueue low_high_medium) = [''h'', ''m'', ''l''] \<and>
   map fst (fst (processQueue test_hostname stepping_clock numbered_nets low_high_medium))
     = [''h'', ''m'', ''l'']"
  by (simp add: low_high_medium_def nominatim_used_def prioritised_def run_simps queue_simps
        stepping_clock_def numbered_nets_def answers_def frozen_clock_def)

section \<open>Malformed URLs\<close>

text \<open>
  C5, as stated, fails: the breaker of the \<^verbatim>\<open>unknown\<close> bucket trips like any other.
  After two requests with a malformed URL have failed (eight failed attempts), a third
  one is rejected with the circuit-open error and makes no attempt.
\<close>

theorem C5_counterexample:
  "failures_of after_two_malformed ''unknown'' = 8 \<and>
   request test_hostname (plain_request ''not a url'') 20 ''c'' (frozen_clock 20) idle_nets
     refusing after_two_malformed
   = (Rejected (JsError ''Error'' ''Circuit breaker is open for unknown''), 0, [],
      after_two_malformed)"
  by (simp add: after_two_malformed_def refusing_def failures_of_def run_simps)

lemma lookup_unknown: "lookup_property RATE_LIMITS ''unknown'' = Undefined"
  by (simp add: lookup_property_def RATE_LIMITS_def object_prototype_names_def)

lemma checkRateLimit_unknown: "checkRateLimit ''unknown'' now s = (True, s)"
  by (simp add: checkRateLimit_def lookup_unknown)

text \<open>While a domain's breaker is open and its cooldown runs, the check answers yes.\<close>

lemma isCircuitOpen_within_cooldown:
  "circuitBreaker s domain = Some b \<Longrightarrow> isOpen b \<Longrightarrow> now - lastFailure b \<le> resetTimeout
     \<Longrightarrow> isCircuitOpen domain now s = (True, s)"
  by (simp add: isCircuitOpen_def)

lemma circuitBreaker_cache_lookup:
  "circuitBreaker (snd (cache_lookup cfg now s)) = circuitBreaker s"
  by (simp add: cache_lookup_def getFromCache_def split: option.splits)

lemma request_circuit_open:
  assumes "circuitBreaker s (extractDomain hostname (url cfg)) = Some b"
    and "isOpen b" and "now - lastFailure b \<le> resetTimeout"
    and "\<not> truthy (fst (cache_lookup cfg now s))"
  shows "request hostname cfg now new_id clock nets net s
           = (Rejected (JsError ''Error''
                (''Circuit breaker is open for '' @ extractDomain hostname (url cfg))),
              0, [], snd (cache_lookup cfg now s))"
proof -
  obtain c s1 where cl: "cache_lookup cfg now s = (c, s1)" by (cases "cache_lookup cfg now s")
  with circuitBreaker_cache_lookup[of cfg now s] assms(1)
  have "circuitBreaker s1 (extractDomain hostname (url cfg)) = Some b" by simp
  from isCircuitOpen_within_cooldown[OF this assms(2,3)] cl assms(4)
  show ?thesis by (simp add: request_def Let_def)
qed

text \<open>
  C5, amended. A request whose target URL is malformed is filed under the domain
  \<^verbatim>\<open>unknown\<close>. That domain has no rate limit: the rate check always passes and leaves
  the state alone, so the request is never queued. Its breaker is an ordinary one: while
  it is open and its cooldown has not elapsed, a request that is not served from the cache
  is rejected with the circuit-open error, without an attempt.
\<close>

theorem C5_unknown_bucket:
  assumes "hostname (url cfg) = None"
  shows "extractDomain hostname (url cfg) = ''unknown'' \<and>
         checkRateLimit ''unknown'' now s = (True, s) \<and>
         fst (request hostname cfg now new_id clock nets net s) \<noteq> Pending \<and>
         fst (snd (snd (request hostname cfg now new_id clock nets net s))) = [] \<and>
         (circuitBreaker s ''unknown'' = Some b \<and> isOpen b \<and>
          now - lastFailure b \<le> resetTimeout \<and> \<not> truthy (fst (cache_lookup cfg now s))
            \<longrightarrow> request hostname cfg now new_id clock nets net s
                  = (Rejected (JsError ''Error'' ''Circuit breaker is open for unknown''),
                     0, [], snd (cache_lookup cfg now s)))"
proof -
  have dom: "extractDomain hostname (url cfg) = ''unknown''"
    using assms by (simp add: extractDomain_def)
  have notq: "fst (request hostname cfg now new_id clock nets net s) \<noteq> Pending \<and>
              fst (snd (snd (request hostname cfg now new_id clock nets net s))) = []"
    by (simp add: request_def dom checkRateLimit_unknown Let_def settle_def
          split: prod.splits sum.splits)
  have "request hostname cfg now new_id clock nets net s
          = (Rejected (JsError ''Error'' ''Circuit breaker is open for unknown''),
             0, [], snd (cache_lookup cfg now s))"
    if "circuitBreaker s ''unknown'' = Some b" "isOpen b"
       "now - lastFailure b \<le> resetTimeout" "\<not> truthy (fst (cache_lookup cfg now s))"
    using request_circuit_open[of s hostname cfg b now new_id clock nets net] that dom
    by simp
  with dom notq checkRateLimit_unknown show ?thesis by blast
qed

theorem C5_unknown_bucket_witness:
  "extractDomain test_hostname (url (plain_request ''not a url'')) = ''unknown'' \<and>
   checkRateLimit ''unknown'' 20 after_two_malformed = (True, after_two_malformed) \<and>
   fst (request test_hostname (plain_request ''not a url'') 20 ''c'' (frozen_clock 20)
          idle_nets refusing after_two_malformed) \<noteq> Pending \<and>
   request test_hostname (plain_request ''not a url'') 20 ''c'' (frozen_clock 20) idle_nets
     refusing after_two_malformed
   = (Rejected (JsError ''Error'' ''Circuit breaker is open for unknown''), 0, [],
      after_two_malformed)"
proof -
  have h: "test_hostname (url (plain_request ''not a url'')) = None"
    by (simp add: test_hostname_def plain_request_def)
  have b: "circuitBreaker after_two_malformed ''unknown''
             = Some \<lparr>failures = 8, lastFailure = 8, isOpen = True\<rparr>"
    by (simp add: after_two_malformed_def refusing_def run_simps)
  have c: "cache_lookup (plain_request ''not a url'') 20 after_two_malformed
             = (JNull, after_two_malformed)"
    by (simp add: cache_lookup_def cache_read_key_def plain_request_def)
  from C5_unknown_bucket[where hostname = test_hostname
      and cfg = "plain_request ''not a url''" and now = 20 and s = after_two_malformed
      and new_id = "''c''" and clock = "frozen_clock 20" and nets = idle_nets
      and net = refusing and b = "\<lparr>failures = 8, lastFailure = 8, isOpen = True\<rparr>"] h b c
  show ?thesis by (simp add: resetTimeout_def)
qed

section \<open>The circuit breaker\<close>

lemma is_open_recordFailure:
  "is_open (recordFailure domain now s) domain
     = (is_open s domain \<or> failureThreshold \<le> Suc (failures_of s domain))"
  by (simp add: is_open_def failures_of_def recordFailure_def Let_def split: option.splits)

text \<open>
  After a send that rejects, the breaker is flagged open if it was before, or if one of
  the send's failed attempts brought the count to the threshold.
\<close>

lemma send_loop_rejected_open:
  "send_loop cfg domain net r a le s = (Inl e, n, s') \<Longrightarrow>
     is_open s' domain
       = (is_open s domain \<or> (a < n \<and> failureThreshold \<le> failures_of s domain + (n - a)))"
proof (induction cfg domain net r a le s rule: send_loop.induct)
  case (1 cfg domain net r a le s)
  show ?case
  proof (cases "int a \<le> r")
    case False
    with "1.prems" show ?thesis by (auto simp: send_loop.simps[of _ _ _ _ a])
  next
    case True
    obtain fr now where net: "net a = (fr, now)" by (cases "net a")
    show ?thesis
    proof (cases "attempt_outcome fr")
      case (Inr d)
      with True net "1.prems" show ?thesis by (simp add: send_loop.simps[of _ _ _ _ a])
    next
      case (Inl e')
      show ?thesis
      proof (cases "no_retry e'")
        case nr: True
        with True net Inl "1.prems" show ?thesis
          by (auto simp: is_open_recordFailure send_loop.simps[of _ _ _ _ a])
      next
        case nr: False
        from True net Inl nr "1.prems"
        have rec: "send_loop cfg domain net r (Suc a) (Some e') (recordFailure domain now s)
                   = (Inl e, n, s')"
          by (simp add: send_loop.simps[of _ _ _ _ a])
        from send_loop_rejected[OF rec] have le: "Suc a \<le> n" by simp
        from "1.IH"[OF True net[symmetric] Inl refl nr rec]
        have "is_open s' domain
                = (is_open s domain \<or> failureThreshold \<le> Suc (failures_of s domain) \<or>
                   (Suc a < n \<and> failureThreshold \<le> Suc (failures_of s domain) + (n - Suc a)))"
          by (simp add: is_open_recordFailure failures_of_recordFailure)
        with le show ?thesis by (cases "Suc a = n") auto
      qed
    qed
  qed
qed

text \<open>The breaker of the example domain along the run that trips it.\<close>

lemma four_failures_breaker:
  "circuitBreaker four_failures ''example.com''
     = Some \<lparr>failures = 4, lastFailure = 3, isOpen = False\<rparr>"
  by (simp add: four_failures_def failing_at_def run_simps)

lemma tripped_breaker:
  "circuitBreaker tripped ''example.com''
     = Some \<lparr>failures = 8, lastFailure = 2003, isOpen = True\<rparr>"
  by (simp add: tripped_def four_failures_breaker failing_at_def run_simps)

lemma after_failed_trial_breaker:
  "circuitBreaker after_failed_trial ''example.com''
     = Some \<lparr>failures = 4, lastFailure = 70003, isOpen = False\<rparr>"
  by (simp add: after_failed_trial_def tripped_breaker failing_at_def run_simps)

lemma tripped_then_resolved_run:
  "request test_hostname (plain_request ''https://example.com/data'') 2000 ''b''
     (frozen_clock 2000) idle_nets (failing_once 2000) four_failures
   = (Fulfilled (JNum 1), 2, [], tripped_then_resolved)"
  by (simp add: prod_eq_iff tripped_then_resolved_def four_failures_breaker failing_once_def
        run_simps)

lemma tripped_then_resolved_breaker:
  "circuitBreaker tripped_then_resolved ''example.com'' = None"
  by (simp add: tripped_then_resolved_def four_failures_breaker failing_once_def run_simps)

text \<open>
  C2, as stated, fails: when the cooldown has elapsed, \<^verbatim>\<open>isCircuitOpen\<close> closes the
  breaker and sets its count to zero, so there is no half-open state. The trial request at
  time 70000 fails in all four attempts; the breaker then holds four failures and stays
  closed, and a second request at time 70010 goes to the network as well.

  Nor does the breaker reject every request until the cooldown has elapsed once the
  count has reached five. After four failures, the first attempt of a request at time
  2000 fails and flags the breaker open; the retry loop goes on, the second attempt
  resolves and deletes the breaker, and a request at time 2010 goes to the network.
\<close>

theorem C2_counterexample:
  "circuitBreaker tripped ''example.com''
     = Some \<lparr>failures = 8, lastFailure = 2003, isOpen = True\<rparr> \<and>
   fst (request test_hostname (plain_request ''https://example.com/data'') 70000 ''t1''
          (frozen_clock 70000) idle_nets (failing_at 70000) tripped)
     = Rejected (JsError ''Error'' ''HTTP 500: Internal Server Error'') \<and>
   circuitBreaker after_failed_trial ''example.com''
     = Some \<lparr>failures = 4, lastFailure = 70003, isOpen = False\<rparr> \<and>
   fst (snd (request test_hostname (plain_request ''https://example.com/data'') 70010 ''t2''
          (frozen_clock 70010) idle_nets (failing_at 70010) after_failed_trial)) = 4 \<and>
   circuitBreaker (recordFailure ''example.com'' 2000 four_failures) ''example.com''
     = Some \<lparr>failures = 5, lastFailure = 2000, isOpen = True\<rparr> \<and>
   request test_hostname (plain_request ''https://example.com/data'') 2000 ''b''
     (frozen_clock 2000) idle_nets (failing_once 2000) four_failures
     = (Fulfilled (JNum 1), 2, [], tripped_then_resolved) \<and>
   circuitBreaker tripped_then_resolved ''example.com'' = None \<and>
   fst (snd (request test_hostname (plain_request ''https://example.com/data'') 2010 ''c''
          (frozen_clock 2010) idle_nets (failing_at 2010) tripped_then_resolved)) = 4"
proof -
  have "fst (request test_hostname (plain_request ''https://example.com/data'') 70000 ''t1''
          (frozen_clock 70000) idle_nets (failing_at 70000) tripped)
     = Rejected (JsError ''Error'' ''HTTP 500: Internal Server Error'')"
    by (simp add: tripped_breaker failing_at_def run_simps digit_char_def)
  moreover have "fst (snd (request test_hostname (plain_request ''https://example.com/data'')
          70010 ''t2'' (frozen_clock 70010) idle_nets (failing_at 70010) after_failed_trial)) = 4"
    by (simp add: after_failed_trial_breaker failing_at_def run_simps)
  ultimately have first: "circuitBreaker tripped ''example.com''
     = Some \<lparr>failures = 8, lastFailure = 2003, isOpen = True\<rparr> \<and>
   fst (request test_hostname (plain_request ''https://example.com/data'') 70000 ''t1''
          (frozen_clock 70000) idle_nets (failing_at 70000) tripped)
     = Rejected (JsError ''Error'' ''HTTP 500: Internal Server Error'') \<and>
   circuitBreaker after_failed_trial ''example.com''
     = Some \<lparr>failures = 4, lastFailure = 70003, isOpen = False\<rparr> \<and>
   fst (snd (request test_hostname (plain_request ''https://example.com/data'') 70010 ''t2''
          (frozen_clock 70010) idle_nets (failing_at 70010) after_failed_trial)) = 4"
    using tripped_breaker after_failed_trial_breaker by simp
  have fifth: "circuitBreaker (recordFailure ''example.com'' 2000 four_failures) ''example.com''
     = Some \<lparr>failures = 5, lastFailure = 2000, isOpen = True\<rparr>"
    by (simp add: recordFailure_def four_failures_breaker failureThreshold_def Let_def)
  have later: "fst (snd (request test_hostname (plain_request ''https://example.com/data'')
          2010 ''c'' (frozen_clock 2010) idle_nets (failing_at 2010) tripped_then_resolved)) = 4"
    by (simp add: tripped_then_resolved_breaker failing_at_def run_simps)
  from first fifth tripped_then_resolved_run tripped_then_resolved_breaker later
  show ?thesis by (intro conjI) (simp_all only: simp_thms)
qed
text \<open>Neither the cache check nor the rate check writes to a breaker.\<close>

lemma circuitBreaker_checkRateLimit:
  "circuitBreaker (snd (checkRateLimit domain now s)) = circuitBreaker s"
  by (simp add: checkRateLimit_def Let_def split: option.splits)

text \<open>A breaker that is absent, not flagged open or past its cooldown lets the check pass.\<close>

lemma isCircuitOpen_passes:
  "(case circuitBreaker s domain of
      None \<Rightarrow> True
    | Some b \<Rightarrow> \<not> isOpen b \<or> resetTimeout < now - lastFailure b)
   \<Longrightarrow> \<not> fst (isCircuitOpen domain now s)"
  by (auto simp: isCircuitOpen_def split: option.splits)

text \<open>A request that is rejected after calls of \<^verbatim>\<open>fetch\<close> was rejected by its direct send.\<close>

lemma request_rejected_by_send:
  assumes "request hostname cfg now new_id clock nets net s = (Rejected e, n, outs, s')"
    and "0 < n"
  shows "executeRequest hostname cfg net
           (snd (checkRateLimit (extractDomain hostname (url cfg)) now
              (snd (isCircuitOpen (extractDomain hostname (url cfg)) now
                 (snd (cache_lookup cfg now s)))))) = (Inl e, n, s')"
  using assms
  by (auto simp: request_def settle_def Let_def
        split: prod.splits if_splits sum.splits)

text \<open>
  C2, amended. (1) The failure that brings a domain's count to the threshold of 5 flags
  its breaker open and stamps it with the time of that failure. (2) As long as the breaker
  is flagged open and no more than 60000 ms have passed since the last failure, every
  request to the domain that is not served from the cache is rejected with the
  circuit-open error, without an attempt and without being queued. (3) The first check
  more than 60000 ms after the last failure closes the breaker and sets its count to
  zero. (4) A send that resolves deletes the domain's breaker, whether it was open or
  not; the retry loop does not consult the breaker, so this also holds for a later attempt
  of the very send that tripped it. (5) After a send that rejects, the breaker is open
  exactly if it was open before or the send's failed attempts brought the count to the
  threshold. (6) A request that is not served from the cache and finds the breaker
  absent, not flagged open, or more than 60000 ms past its last failure goes on to the
  rate check and is sent or queued as any request is: after the cooldown every request is
  admitted, not one trial only, and a request that is sent calls \<^verbatim>\<open>fetch\<close>. (7) A request
  that finds the breaker open and past its cooldown and is rejected after \<open>n\<close> attempts
  leaves the count at \<open>n\<close>, and the breaker open only if \<open>n\<close> reaches the threshold.
\<close>

theorem C2_breaker_opens_and_closes:
  "(failureThreshold \<le> Suc (failures_of s1 d1) \<longrightarrow>
      (\<exists>b. circuitBreaker (recordFailure d1 t1 s1) d1 = Some b \<and> isOpen b \<and>
           lastFailure b = t1 \<and> failures b = Suc (failures_of s1 d1))) \<and>
   (circuitBreaker s2 (extractDomain hostname (url cfg2)) = Some b2 \<and> isOpen b2 \<and>
    t2 - lastFailure b2 \<le> resetTimeout \<and> \<not> truthy (fst (cache_lookup cfg2 t2 s2)) \<longrightarrow>
      request hostname cfg2 t2 id2 clock2 nets2 net2 s2
        = (Rejected (JsError ''Error''
             (''Circuit breaker is open for '' @ extractDomain hostname (url cfg2))),
           0, [], snd (cache_lookup cfg2 t2 s2))) \<and>
   (circuitBreaker s3 d3 = Some b3 \<and> isOpen b3 \<and> resetTimeout < t3 - lastFailure b3 \<longrightarrow>
      isCircuitOpen d3 t3 s3
        = (False, s3\<lparr>circuitBreaker :=
                        (circuitBreaker s3)(d3 \<mapsto> b3\<lparr>isOpen := False, failures := 0\<rparr>)\<rparr>)) \<and>
   (executeRequest hostname cfg4 net4 s4 = (Inr d, n4, s4') \<longrightarrow>
      circuitBreaker s4' (extractDomain hostname (url cfg4)) = None) \<and>
   (executeRequest hostname cfg5 net5 s5 = (Inl e, n5, s5') \<longrightarrow>
      is_open s5' (extractDomain hostname (url cfg5))
        = (is_open s5 (extractDomain hostname (url cfg5)) \<or>
           (0 < n5 \<and>
            failureThreshold \<le> failures_of s5 (extractDomain hostname (url cfg5)) + n5))) \<and>
   ((case circuitBreaker s6 (extractDomain hostname (url cfg6)) of
       None \<Rightarrow> True
     | Some b \<Rightarrow> \<not> isOpen b \<or> resetTimeout < t6 - lastFailure b) \<and>
    \<not> truthy (fst (cache_lookup cfg6 t6 s6)) \<longrightarrow>
      request hostname cfg6 t6 id6 clock6 nets6 net6 s6
        = (case checkRateLimit (extractDomain hostname (url cfg6)) t6
                  (snd (isCircuitOpen (extractDomain hostname (url cfg6)) t6
                     (snd (cache_lookup cfg6 t6 s6)))) of
             (ok, sa) \<Rightarrow>
               if \<not> ok then
                 (case queueRequest hostname cfg6 id6 t6 clock6 nets6 sa of
                    (outs, sb) \<Rightarrow> (Pending, 0, outs, sb))
               else
                 (case executeRequest hostname cfg6 net6 sa of
                    (res, n, sb) \<Rightarrow> (settle res, n, [], sb))) \<and>
      (fst (checkRateLimit (extractDomain hostname (url cfg6)) t6
              (snd (isCircuitOpen (extractDomain hostname (url cfg6)) t6
                 (snd (cache_lookup cfg6 t6 s6))))) \<and>
       0 \<le> (case retries cfg6 of None \<Rightarrow> 3 | Some k \<Rightarrow> k) \<longrightarrow>
         0 < fst (snd (request hostname cfg6 t6 id6 clock6 nets6 net6 s6)))) \<and>
   (circuitBreaker s7 (extractDomain hostname (url cfg7)) = Some b7 \<and> isOpen b7 \<and>
    resetTimeout < t7 - lastFailure b7 \<and>
    request hostname cfg7 t7 id7 clock7 nets7 net7 s7 = (Rejected e7, n7, outs7, s7') \<and>
    0 < n7 \<longrightarrow>
      failures_of s7' (extractDomain hostname (url cfg7)) = n7 \<and>
      is_open s7' (extractDomain hostname (url cfg7)) = (failureThreshold \<le> n7))"
proof -
  have p1: "failureThreshold \<le> Suc (failures_of s1 d1) \<longrightarrow>
      (\<exists>b. circuitBreaker (recordFailure d1 t1 s1) d1 = Some b \<and> isOpen b \<and>
           lastFailure b = t1 \<and> failures b = Suc (failures_of s1 d1))"
    by (simp add: recordFailure_def failures_of_def Let_def split: option.splits)
  have p2: "circuitBreaker s2 (extractDomain hostname (url cfg2)) = Some b2 \<and> isOpen b2 \<and>
    t2 - lastFailure b2 \<le> resetTimeout \<and> \<not> truthy (fst (cache_lookup cfg2 t2 s2)) \<longrightarrow>
      request hostname cfg2 t2 id2 clock2 nets2 net2 s2
        = (Rejected (JsError ''Error''
             (''Circuit breaker is open for '' @ extractDomain hostname (url cfg2))),
           0, [], snd (cache_lookup cfg2 t2 s2))"
    using request_circuit_open by blast
  have p3: "circuitBreaker s3 d3 = Some b3 \<and> isOpen b3 \<and> resetTimeout < t3 - lastFailure b3 \<longrightarrow>
      isCircuitOpen d3 t3 s3
        = (False, s3\<lparr>circuitBreaker :=
                        (circuitBreaker s3)(d3 \<mapsto> b3\<lparr>isOpen := False, failures := 0\<rparr>)\<rparr>)"
    by (simp add: isCircuitOpen_def)
  have p4: "executeRequest hostname cfg4 net4 s4 = (Inr d, n4, s4') \<longrightarrow>
      circuitBreaker s4' (extractDomain hostname (url cfg4)) = None"
    using send_loop_resolved by (auto simp: executeRequest_def)
  have p5: "executeRequest hostname cfg5 net5 s5 = (Inl e, n5, s5') \<longrightarrow>
      is_open s5' (extractDomain hostname (url cfg5))
        = (is_open s5 (extractDomain hostname (url cfg5)) \<or>
           (0 < n5 \<and>
            failureThreshold \<le> failures_of s5 (extractDomain hostname (url cfg5)) + n5))"
    using send_loop_rejected_open[of cfg5 "extractDomain hostname (url cfg5)" net5 _ 0 None s5 e
        n5 s5']
    by (simp add: executeRequest_def)
  let ?d6 = "extractDomain hostname (url cfg6)"
  let ?rc = "checkRateLimit ?d6 t6 (snd (isCircuitOpen ?d6 t6 (snd (cache_lookup cfg6 t6 s6))))"
  let ?adm = "case ?rc of
             (ok, sa) \<Rightarrow>
               if \<not> ok then
                 (case queueRequest hostname cfg6 id6 t6 clock6 nets6 sa of
                    (outs, sb) \<Rightarrow> (Pending, 0, outs, sb))
               else
                 (case executeRequest hostname cfg6 net6 sa of
                    (res, n, sb) \<Rightarrow> (settle res, n, [], sb))"
  have q6: "request hostname cfg6 t6 id6 clock6 nets6 net6 s6 = ?adm \<and>
      (fst ?rc \<and> 0 \<le> (case retries cfg6 of None \<Rightarrow> 3 | Some k \<Rightarrow> k) \<longrightarrow>
         0 < fst (snd (request hostname cfg6 t6 id6 clock6 nets6 net6 s6)))"
    if pass: "case circuitBreaker s6 ?d6 of
                None \<Rightarrow> True
              | Some b \<Rightarrow> \<not> isOpen b \<or> resetTimeout < t6 - lastFailure b"
      and miss: "\<not> truthy (fst (cache_lookup cfg6 t6 s6))"
  proof -
    obtain c sc where cl: "cache_lookup cfg6 t6 s6 = (c, sc)"
      by (cases "cache_lookup cfg6 t6 s6")
    with circuitBreaker_cache_lookup[of cfg6 t6 s6]
    have "circuitBreaker sc = circuitBreaker s6" by simp
    with pass have "case circuitBreaker sc ?d6 of
                None \<Rightarrow> True
              | Some b \<Rightarrow> \<not> isOpen b \<or> resetTimeout < t6 - lastFailure b" by simp
    from isCircuitOpen_passes[OF this]
    obtain so where co: "isCircuitOpen ?d6 t6 sc = (False, so)"
      by (cases "isCircuitOpen ?d6 t6 sc") auto
    have eq: "request hostname cfg6 t6 id6 clock6 nets6 net6 s6 = ?adm"
      using cl miss co by (simp add: request_def Let_def)
    have "0 < fst (snd (request hostname cfg6 t6 id6 clock6 nets6 net6 s6))"
      if ok: "fst ?rc" and r: "0 \<le> (case retries cfg6 of None \<Rightarrow> 3 | Some k \<Rightarrow> k)"
    proof -
      obtain sa where rc: "?rc = (True, sa)" using ok by (cases ?rc) auto
      from executeRequest_attempts_pos[OF r, of hostname net6 sa]
      show ?thesis unfolding eq rc
        by (cases "executeRequest hostname cfg6 net6 sa") simp
    qed
    with eq show ?thesis by blast
  qed
  have p6: "(case circuitBreaker s6 ?d6 of
       None \<Rightarrow> True
     | Some b \<Rightarrow> \<not> isOpen b \<or> resetTimeout < t6 - lastFailure b) \<and>
    \<not> truthy (fst (cache_lookup cfg6 t6 s6)) \<longrightarrow>
      request hostname cfg6 t6 id6 clock6 nets6 net6 s6 = ?adm \<and>
      (fst ?rc \<and> 0 \<le> (case retries cfg6 of None \<Rightarrow> 3 | Some k \<Rightarrow> k) \<longrightarrow>
         0 < fst (snd (request hostname cfg6 t6 id6 clock6 nets6 net6 s6)))"
    using q6 by (intro impI) (elim conjE, assumption+)
  let ?d7 = "extractDomain hostname (url cfg7)"
  have q7: "failures_of s7' ?d7 = n7 \<and> is_open s7' ?d7 = (failureThreshold \<le> n7)"
    if b: "circuitBreaker s7 ?d7 = Some b7" and o: "isOpen b7"
      and el: "resetTimeout < t7 - lastFailure b7"
      and rq: "request hostname cfg7 t7 id7 clock7 nets7 net7 s7 = (Rejected e7, n7, outs7, s7')"
      and n: "0 < n7"
  proof -
    let ?s1 = "snd (cache_lookup cfg7 t7 s7)"
    let ?s2 = "snd (isCircuitOpen ?d7 t7 ?s1)"
    let ?s3 = "snd (checkRateLimit ?d7 t7 ?s2)"
    from request_rejected_by_send[OF rq n]
    have ex: "executeRequest hostname cfg7 net7 ?s3 = (Inl e7, n7, s7')" .
    have "circuitBreaker ?s1 ?d7 = Some b7"
      using b by (simp add: circuitBreaker_cache_lookup)
    then have "circuitBreaker ?s2 ?d7 = Some (b7\<lparr>isOpen := False, failures := 0\<rparr>)"
      using o el by (simp add: isCircuitOpen_def)
    then have b3: "circuitBreaker ?s3 ?d7 = Some (b7\<lparr>isOpen := False, failures := 0\<rparr>)"
      by (simp add: circuitBreaker_checkRateLimit)
    then have zero: "failures_of ?s3 ?d7 = 0" and closed: "\<not> is_open ?s3 ?d7"
      by (simp_all add: failures_of_def is_open_def)
    from send_loop_rejected[OF ex[unfolded executeRequest_def]] zero
    have f: "failures_of s7' ?d7 = n7" by simp
    from send_loop_rejected_open[OF ex[unfolded executeRequest_def]] zero closed n
    have "is_open s7' ?d7 = (failureThreshold \<le> n7)" by simp
    with f show ?thesis by simp
  qed
  have p7: "circuitBreaker s7 ?d7 = Some b7 \<and> isOpen b7 \<and>
    resetTimeout < t7 - lastFailure b7 \<and>
    request hostname cfg7 t7 id7 clock7 nets7 net7 s7 = (Rejected e7, n7, outs7, s7') \<and>
    0 < n7 \<longrightarrow>
      failures_of s7' ?d7 = n7 \<and> is_open s7' ?d7 = (failureThreshold \<le> n7)"
    using q7 by (intro impI) (elim conjE, assumption+)
  show ?thesis
    by (intro conjI) (rule p1, rule p2, rule p3, rule p4, rule p5, rule p6, rule p7)
qed

lemma trial_run:
  "executeRequest test_hostname (plain_request ''https://example.com/data'') (failing_at 70000)
     (snd (isCircuitOpen ''example.com'' 70000 tripped))
   = (Inl (JsError ''Error'' ''HTTP 500: Internal Server Error''), 4,
      snd (snd (executeRequest test_hostname (plain_request ''https://example.com/data'')
        (failing_at 70000) (snd (isCircuitOpen ''example.com'' 70000 tripped)))))"
  by (simp add: prod_eq_iff executeRequest_def send_loop.simps plain_request_def failing_at_def
        attempt_outcome_def no_retry_def Let_def digit_char_def)

lemma recovered_run:
  "executeRequest test_hostname (plain_request ''https://example.com/data'') (answers (JNum 7) 70050)
     (snd (isCircuitOpen ''example.com'' 70000 tripped))
   = (Inr (JNum 7), 1,
      snd (snd (executeRequest test_hostname (plain_request ''https://example.com/data'')
        (answers (JNum 7) 70050) (snd (isCircuitOpen ''example.com'' 70000 tripped)))))"
  by (simp add: prod_eq_iff executeRequest_def send_loop.simps plain_request_def answers_def
        attempt_outcome_def Let_def)

lemma trial_request_run:
  "request test_hostname (plain_request ''https://example.com/data'') 70000 ''t1''
     (frozen_clock 70000) idle_nets (failing_at 70000) tripped
   = (Rejected (JsError ''Error'' ''HTTP 500: Internal Server Error''), 4, [],
      after_failed_trial)"
  by (simp add: prod_eq_iff after_failed_trial_def tripped_breaker failing_at_def run_simps
        digit_char_def)

theorem C2_breaker_opens_and_closes_witness:
  "circuitBreaker (recordFailure ''example.com'' 2000 four_failures) ''example.com''
     = Some \<lparr>failures = 5, lastFailure = 2000, isOpen = True\<rparr> \<and>
   request test_hostname (plain_request ''https://example.com/data'') 50000 ''c''
     (frozen_clock 50000) idle_nets (answers (JNum 7) 50050) tripped
     = (Rejected (JsError ''Error'' ''Circuit breaker is open for example.com''), 0, [],
        tripped) \<and>
   fst (isCircuitOpen ''example.com'' 70000 tripped) = False \<and>
   circuitBreaker (snd (isCircuitOpen ''example.com'' 70000 tripped)) ''example.com''
     = Some \<lparr>failures = 0, lastFailure = 2003, isOpen = False\<rparr> \<and>
   circuitBreaker (snd (snd (executeRequest test_hostname
       (plain_request ''https://example.com/data'') (answers (JNum 7) 70050)
       (snd (isCircuitOpen ''example.com'' 70000 tripped))))) ''example.com'' = None \<and>
   is_open (snd (snd (executeRequest test_hostname
       (plain_request ''https://example.com/data'') (failing_at 70000)
       (snd (isCircuitOpen ''example.com'' 70000 tripped))))) ''example.com'' = False \<and>
   0 < fst (snd (request test_hostname (plain_request ''https://example.com/data'') 70010
                   ''t2'' (frozen_clock 70010) idle_nets (failing_at 70010)
                   after_failed_trial)) \<and>
   failures_of after_failed_trial ''example.com'' = 4 \<and>
   \<not> is_open after_failed_trial ''example.com''"
proof -
  have dom: "extractDomain test_hostname (url (plain_request ''https://example.com/data''))
               = ''example.com''"
    by (simp add: extractDomain_def test_hostname_def plain_request_def)
  note four = four_failures_breaker
  have miss: "cache_lookup (plain_request ''https://example.com/data'') 50000 tripped
                = (JNull, tripped)"
    by (simp add: cache_lookup_def cache_read_key_def plain_request_def)
  have closed: "circuitBreaker (snd (isCircuitOpen ''example.com'' 70000 tripped)) ''example.com''
     = Some \<lparr>failures = 0, lastFailure = 2003, isOpen = False\<rparr>"
    by (simp add: isCircuitOpen_def tripped_breaker resetTimeout_def)
  have miss6: "cache_lookup (plain_request ''https://example.com/data'') 70010
                 after_failed_trial = (JNull, after_failed_trial)"
    by (simp add: cache_lookup_def cache_read_key_def plain_request_def)
  have pass6: "fst (checkRateLimit ''example.com'' 70010
                 (snd (isCircuitOpen ''example.com'' 70010 after_failed_trial)))"
    by (simp add: checkRateLimit_def lookup_property_def RATE_LIMITS_def
          object_prototype_names_def)
  have r6: "(0::int) \<le> (case retries (plain_request ''https://example.com/data'') of
                           None \<Rightarrow> 3 | Some k \<Rightarrow> k)"
    by (simp add: plain_request_def)
  note inst = C2_breaker_opens_and_closes[where hostname = test_hostname
      and ?s1.0 = four_failures and ?d1.0 = "''example.com''" and ?t1.0 = 2000
      and ?s2.0 = tripped and ?cfg2.0 = "plain_request ''https://example.com/data''"
      and ?b2.0 = "\<lparr>failures = 8, lastFailure = 2003, isOpen = True\<rparr>" and ?t2.0 = 50000
      and ?id2.0 = "''c''" and ?clock2.0 = "frozen_clock 50000" and ?nets2.0 = idle_nets
      and ?net2.0 = "answers (JNum 7) 50050"
      and ?s3.0 = tripped and ?d3.0 = "''example.com''"
      and ?b3.0 = "\<lparr>failures = 8, lastFailure = 2003, isOpen = True\<rparr>" and ?t3.0 = 70000
      and ?cfg4.0 = "plain_request ''https://example.com/data''"
      and ?net4.0 = "answers (JNum 7) 70050"
      and ?s4.0 = "snd (isCircuitOpen ''example.com'' 70000 tripped)"
      and ?cfg5.0 = "plain_request ''https://example.com/data''"
      and ?net5.0 = "failing_at 70000"
      and ?s5.0 = "snd (isCircuitOpen ''example.com'' 70000 tripped)"
      and ?s6.0 = after_failed_trial and ?cfg6.0 = "plain_request ''https://example.com/data''"
      and ?t6.0 = 70010 and ?id6.0 = "''t2''" and ?clock6.0 = "frozen_clock 70010"
      and ?nets6.0 = idle_nets and ?net6.0 = "failing_at 70010"
      and ?s7.0 = tripped and ?cfg7.0 = "plain_request ''https://example.com/data''"
      and ?b7.0 = "\<lparr>failures = 8, lastFailure = 2003, isOpen = True\<rparr>" and ?t7.0 = 70000
      and ?id7.0 = "''t1''" and ?clock7.0 = "frozen_clock 70000" and ?nets7.0 = idle_nets
      and ?net7.0 = "failing_at 70000"
      and ?e7.0 = "JsError ''Error'' ''HTTP 500: Internal Server Error''" and ?n7.0 = 4
      and ?outs7.0 = "[]" and ?s7'.0 = after_failed_trial]
  note i1 = inst[THEN conjunct1]
  note i2 = inst[THEN conjunct2, THEN conjunct1]
  note i3 = inst[THEN conjunct2, THEN conjunct2, THEN conjunct1]
  note i4 = inst[THEN conjunct2, THEN conjunct2, THEN conjunct2, THEN conjunct1]
  note i5 = inst[THEN conjunct2, THEN conjunct2, THEN conjunct2, THEN conjunct2, THEN conjunct1]
  note i6 = inst[THEN conjunct2, THEN conjunct2, THEN conjunct2, THEN conjunct2,
                 THEN conjunct2, THEN conjunct1]
  note i7 = inst[THEN conjunct2, THEN conjunct2, THEN conjunct2, THEN conjunct2,
                 THEN conjunct2, THEN conjunct2]
  from i1 dom four have w1:
    "circuitBreaker (recordFailure ''example.com'' 2000 four_failures) ''example.com''
       = Some \<lparr>failures = 5, lastFailure = 2000, isOpen = True\<rparr>"
    by (simp add: recordFailure_def Let_def failureThreshold_def)
  from i2 dom tripped_breaker miss have w2:
    "request test_hostname (plain_request ''https://example.com/data'') 50000 ''c''
     (frozen_clock 50000) idle_nets (answers (JNum 7) 50050) tripped
     = (Rejected (JsError ''Error'' ''Circuit breaker is open for example.com''), 0, [],
        tripped)"
    by (simp add: resetTimeout_def)
  from i3 tripped_breaker have w3: "fst (isCircuitOpen ''example.com'' 70000 tripped) = False"
    by (simp add: resetTimeout_def)
  from i4 dom recovered_run have w4:
    "circuitBreaker (snd (snd (executeRequest test_hostname
       (plain_request ''https://example.com/data'') (answers (JNum 7) 70050)
       (snd (isCircuitOpen ''example.com'' 70000 tripped))))) ''example.com'' = None"
    by metis
  from i5 dom trial_run closed have w5:
    "is_open (snd (snd (executeRequest test_hostname
       (plain_request ''https://example.com/data'') (failing_at 70000)
       (snd (isCircuitOpen ''example.com'' 70000 tripped))))) ''example.com'' = False"
    by (simp add: is_open_def failures_of_def failureThreshold_def)
  have h6: "(case circuitBreaker after_failed_trial
                 (extractDomain test_hostname (url (plain_request ''https://example.com/data''))) of
               None \<Rightarrow> True
             | Some b \<Rightarrow> \<not> isOpen b \<or> resetTimeout < 70010 - lastFailure b) \<and>
            \<not> truthy (fst (cache_lookup (plain_request ''https://example.com/data'') 70010
                               after_failed_trial))"
    by (simp add: dom after_failed_trial_breaker miss6)
  have h6b: "fst (checkRateLimit
                (extractDomain test_hostname (url (plain_request ''https://example.com/data'')))
                70010
                (snd (isCircuitOpen
                   (extractDomain test_hostname (url (plain_request ''https://example.com/data'')))
                   70010
                   (snd (cache_lookup (plain_request ''https://example.com/data'') 70010
                           after_failed_trial))))) \<and>
             0 \<le> (case retries (plain_request ''https://example.com/data'') of
                      None \<Rightarrow> 3 | Some k \<Rightarrow> k)"
    using pass6 r6 by (simp add: dom miss6)
  from i6[THEN mp, OF h6, THEN conjunct2, THEN mp, OF h6b] have w6:
    "0 < fst (snd (request test_hostname (plain_request ''https://example.com/data'') 70010
                   ''t2'' (frozen_clock 70010) idle_nets (failing_at 70010)
                   after_failed_trial))" .
  have h7: "circuitBreaker tripped
              (extractDomain test_hostname (url (plain_request ''https://example.com/data'')))
              = Some \<lparr>failures = 8, lastFailure = 2003, isOpen = True\<rparr> \<and>
            isOpen \<lparr>failures = 8, lastFailure = 2003, isOpen = True\<rparr> \<and>
            resetTimeout < 70000 - lastFailure \<lparr>failures = 8, lastFailure = 2003, isOpen = True\<rparr> \<and>
            request test_hostname (plain_request ''https://example.com/data'') 70000 ''t1''
              (frozen_clock 70000) idle_nets (failing_at 70000) tripped
              = (Rejected (JsError ''Error'' ''HTTP 500: Internal Server Error''), 4, [],
                 after_failed_trial) \<and>
            (0::nat) < 4"
    by (simp add: dom tripped_breaker trial_request_run resetTimeout_def)
  from i7[THEN mp, OF h7] dom have w7:
    "failures_of after_failed_trial ''example.com'' = 4 \<and>
     \<not> is_open after_failed_trial ''example.com''"
    by (simp add: failureThreshold_def)
  from w1 w2 w3 closed w4 w5 w6 w7 show ?thesis by blast
qed

section \<open>Rate limiting\<close>












subsection \<open>The runs that queue a request\<close>











subsection \<open>What the drain does to the queue\<close>






subsection \<open>What the checks read and write\<close>









subsection \<open>The head of the queue after the window has reset\<close>








end
